theory Spec2Isabelle
  imports Complex_Main "HOL-Library.Sublist" "HOL-Library.AList"
begin

section \<open>Evaluation metrics (eval/metrics.ts)\<close>

text \<open>
  \<^verbatim>\<open>calculatePassAtK(results: boolean[], k: number)\<close> takes \<^verbatim>\<open>results.slice(0, k)\<close> and asks
  whether \<^verbatim>\<open>some\<close> element is true.  The parameter \<open>k\<close> is documented as the "number of
  attempts to consider", a count, and is a natural number here; on a count \<^verbatim>\<open>slice(0, k)\<close>
  is \<open>take k\<close>.
\<close>

definition calculatePassAtK :: "bool list \<Rightarrow> nat \<Rightarrow> bool" where
  "calculatePassAtK results k = (let firstK = take k results in list_ex (\<lambda>success. success) firstK)"

text \<open>
  \<^verbatim>\<open>estimatePassAtK(n, c, k)\<close>: \<open>n\<close> samples, \<open>c\<close> correct samples, both counts (naturals).
  The loop \<^verbatim>\<open>for (let i = 0; i < k; i++) ratio *= (n - c - i) / (n - i)\<close> is a fold over
  \<open>0..<k\<close>.  The subtractions are the source's signed ones (a factor is negative once
  \<open>i > n - c\<close>), so they are computed in the rationals, which stand for the source's
  doubles with exact arithmetic.
\<close>

definition ratio_step :: "nat \<Rightarrow> nat \<Rightarrow> nat \<Rightarrow> rat \<Rightarrow> rat" where
  "ratio_step n c i ratio = ratio * ((of_nat n - of_nat c - of_nat i) / (of_nat n - of_nat i))"

definition ratio_loop :: "nat \<Rightarrow> nat \<Rightarrow> nat \<Rightarrow> rat" where
  "ratio_loop n c k = fold (ratio_step n c) [0..<k] 1"

definition estimatePassAtK :: "nat \<Rightarrow> nat \<Rightarrow> nat \<Rightarrow> rat" where
  "estimatePassAtK n c k =
     (if n < k then (if c > 0 then 1 else 0)
      else if c = 0 then 0
      else if c \<ge> n then 1
      else 1 - ratio_loop n c k)"

section \<open>Data model (types/index.ts)\<close>

text \<open>
  The action vocabulary is the zod enum \<^verbatim>\<open>ActionTypeSchema\<close>.  The planner's output is
  only cast to \<^verbatim>\<open>Action[]\<close> after \<^verbatim>\<open>JSON.parse\<close>, never validated, so a \<^verbatim>\<open>type\<close> outside
  the enum can reach the router; \<open>Unrecognized\<close> carries such a string.
\<close>

datatype ActionType = Navigate | Click | Fill | Extract | Wait | Screenshot | Unrecognized string

record Action =
  a_type :: ActionType
  a_target :: "string option"
  a_value :: "string option"
  a_timeout :: "nat option"

record StepResult =
  sr_action :: Action
  sr_success :: bool
  sr_error :: "string option"
  sr_duration :: nat
  sr_screenshot :: "string option"
  sr_healingUsed :: bool

record HealingAttempt =
  attemptNumber :: nat
  originalError :: string
  strategy :: string
  elementFound :: bool
  newSelector :: "string option"
  ha_screenshot :: string
  timestamp :: nat

text \<open>
  Extracted data is what \<^verbatim>\<open>JSON.parse\<close> yields: a JSON tree.  An object is the association
  list of its own keys; \<^verbatim>\<open>undefined\<close> is \<open>None\<close> of \<open>json option\<close>.
\<close>

datatype json =
    JNull
  | JBool bool
  | JNum rat
  | JStr string
  | JArr "json list"
  | JObj "(string \<times> json) list"

record TaskResult =
  tr_success :: bool
  tr_data :: "(string \<times> json) list option"
  tr_steps :: "StepResult list"
  tr_healingAttempts :: "HealingAttempt list"
  tr_duration :: nat
  tr_screenshots :: "string list"

record DetectedElement =
  description :: string
  selector :: string
  confidence :: rat

text \<open>
  \<^verbatim>\<open>HealingConfigSchema\<close>: \<open>maxRetries\<close> is a number of retries between 1 and 10 (the
  command line passes \<^verbatim>\<open>parseInt\<close> of its option), a natural number here.  The graph
  never reads \<open>enabled\<close>.
\<close>

datatype BackoffPolicy = Linear | Exponential

record HealingConfig =
  enabled :: bool
  maxRetries :: nat
  backoff :: BackoffPolicy
  baseDelayMs :: nat

section \<open>JavaScript string helpers\<close>

text \<open>
  Strings are byte lists.  \<^verbatim>\<open>includes\<close> (here \<open>str_includes\<close>) is substring search,
  \<^verbatim>\<open>split('.')\<close> cuts at every dot and always yields at least one part.  A string is
  falsy iff it is absent or empty.  \<^verbatim>\<open>toLowerCase\<close> is a built-in of the runtime and a
  parameter wherever the source calls it.
\<close>

fun str_includes :: "string \<Rightarrow> string \<Rightarrow> bool" where
  "str_includes [] needle = (needle = [])"
| "str_includes (h # hay) needle = (prefix needle (h # hay) \<or> str_includes hay needle)"

fun split_on :: "char \<Rightarrow> string \<Rightarrow> string list" where
  "split_on sep [] = [[]]"
| "split_on sep (ch # cs) =
     (if ch = sep then [] # split_on sep cs
      else (case split_on sep cs of [] \<Rightarrow> [[ch]] | p # ps \<Rightarrow> (ch # p) # ps))"

definition truthy :: "string option \<Rightarrow> bool" where
  "truthy v = (case v of None \<Rightarrow> False | Some s \<Rightarrow> s \<noteq> [])"

section \<open>Graders (eval/graders.ts)\<close>

datatype OutcomeType = Contains | Equals | Matches | Exists | OtherOutcome

text \<open>
  \<^verbatim>\<open>value?: string | RegExp\<close>.
\<close>

datatype 'r Pattern = PString string | PRegExp 'r

record 'r ExpectedOutcome =
  eo_type :: OutcomeType
  eo_field :: "string option"
  eo_value :: "'r Pattern option"

text \<open>
  The extracted data is a JSON tree, but the property access \<^verbatim>\<open>current[part]\<close> of
  \<^verbatim>\<open>getNestedField\<close> follows the prototype chain: a part that is not an own key can
  still resolve, to a member inherited from \<^verbatim>\<open>Object.prototype\<close> or
  \<^verbatim>\<open>Array.prototype\<close> (a function, or the prototype object itself).  Such a value is
  not JSON; it is a \<open>Host\<close> value of a type \<open>'h\<close> that the runtime decides.
\<close>

datatype 'h jsvalue = Data json | Host 'h

text \<open>
  What the JavaScript runtime provides, taken as parameters:
  \<^item> \<open>String_toLowerCase\<close>: \<^verbatim>\<open>String.prototype.toLowerCase\<close>;
  \<^item> \<open>JSON_stringify\<close>: \<^verbatim>\<open>JSON.stringify\<close> on a JSON value (always a string);
  \<^item> \<open>RegExp_new\<close>: \<^verbatim>\<open>new RegExp(pattern)\<close>, \<open>None\<close> where it throws a SyntaxError;
  \<^item> \<open>RegExp_test\<close>: \<^verbatim>\<open>regex.test\<close> of a regular expression without the global or sticky flag;
  \<^item> \<open>inherited\<close>: \<^verbatim>\<open>current[part]\<close> for a JSON object or array \<open>current\<close> and a \<open>part\<close>
    that is not one of its own keys (\<open>None\<close> is \<^verbatim>\<open>undefined\<close>);
  \<^item> \<open>hostGet\<close>: \<^verbatim>\<open>current[part]\<close> for a host value;
  \<^item> \<open>hostIsObject\<close>: \<^verbatim>\<open>typeof current === 'object'\<close> for a host value (false for a function);
  \<^item> \<open>hostArrayItems\<close>: the elements when \<^verbatim>\<open>Array.isArray\<close> holds of a host value, else \<open>None\<close>;
  \<^item> \<open>hostStringify\<close>: \<^verbatim>\<open>JSON.stringify\<close> on a host value, \<open>None\<close> where it is
    \<^verbatim>\<open>undefined\<close> (as for a function).
\<close>

record ('r, 'h) builtins =
  String_toLowerCase :: "string \<Rightarrow> string"
  JSON_stringify :: "json \<Rightarrow> string"
  RegExp_new :: "string \<Rightarrow> 'r option"
  RegExp_test :: "'r \<Rightarrow> string \<Rightarrow> bool"
  inherited :: "json \<Rightarrow> string \<Rightarrow> 'h jsvalue option"
  hostGet :: "'h \<Rightarrow> string \<Rightarrow> 'h jsvalue option"
  hostIsObject :: "'h \<Rightarrow> bool"
  hostArrayItems :: "'h \<Rightarrow> 'h jsvalue list option"
  hostStringify :: "'h \<Rightarrow> string option"

datatype js_error = TypeError | SyntaxError

text \<open>\<^verbatim>\<open>!expected.value\<close>: an absent value and the empty string are falsy, a RegExp object is not.\<close>

definition truthyPattern :: "'r Pattern option \<Rightarrow> bool" where
  "truthyPattern v = (case v of None \<Rightarrow> False | Some (PString s) \<Rightarrow> s \<noteq> [] | Some (PRegExp r) \<Rightarrow> True)"

text \<open>
  The own properties of an array made by \<^verbatim>\<open>JSON.parse\<close>: a canonical decimal index below
  the length gives the element, \<^verbatim>\<open>length\<close> the length.
\<close>

definition isDigit :: "char \<Rightarrow> bool" where
  "isDigit ch = (48 \<le> (of_char ch :: nat) \<and> (of_char ch :: nat) \<le> 57)"

definition arrayIndex :: "string \<Rightarrow> nat option" where
  "arrayIndex s =
     (if s = [] \<or> \<not> list_all isDigit s \<or> (length s > 1 \<and> hd s = CHR ''0'') then None
      else Some (fold (\<lambda>ch acc. 10 * acc + ((of_char ch :: nat) - 48)) s 0))"

definition arrayProperty :: "json list \<Rightarrow> string \<Rightarrow> json option" where
  "arrayProperty xs part =
     (if part = ''length'' then Some (JNum (of_nat (length xs)))
      else (case arrayIndex part of
              None \<Rightarrow> None
            | Some i \<Rightarrow> if i < length xs then Some (xs ! i) else None))"

text \<open>
  \<^verbatim>\<open>current[part]\<close>: an own key first, then the prototype chain.
\<close>

definition getProperty :: "('r, 'h) builtins \<Rightarrow> 'h jsvalue \<Rightarrow> string \<Rightarrow> 'h jsvalue option" where
  "getProperty js current part =
     (case current of
        Data (JObj kvs) \<Rightarrow>
          (case map_of kvs part of Some v \<Rightarrow> Some (Data v) | None \<Rightarrow> inherited js (JObj kvs) part)
      | Data (JArr xs) \<Rightarrow>
          (case arrayProperty xs part of Some v \<Rightarrow> Some (Data v) | None \<Rightarrow> inherited js (JArr xs) part)
      | Data _ \<Rightarrow> None
      | Host h \<Rightarrow> hostGet js h part)"

text \<open>\<^verbatim>\<open>current !== null && typeof current === 'object'\<close>\<close>

definition isObjectValue :: "('r, 'h) builtins \<Rightarrow> 'h jsvalue \<Rightarrow> bool" where
  "isObjectValue js v =
     (case v of
        Data (JObj kvs) \<Rightarrow> True
      | Data (JArr xs) \<Rightarrow> True
      | Data _ \<Rightarrow> False
      | Host h \<Rightarrow> hostIsObject js h)"

fun walkPath :: "('r, 'h) builtins \<Rightarrow> string list \<Rightarrow> 'h jsvalue option \<Rightarrow> 'h jsvalue option" where
  "walkPath js [] current = current"
| "walkPath js (part # parts) current =
     (case current of
        None \<Rightarrow> None
      | Some v \<Rightarrow> if isObjectValue js v then walkPath js parts (getProperty js v part) else None)"

definition getNestedField :: "('r, 'h) builtins \<Rightarrow> (string \<times> json) list \<Rightarrow> string \<Rightarrow> 'h jsvalue option" where
  "getNestedField js obj path =
     (let parts = split_on CHR ''.'' path in walkPath js parts (Some (Data (JObj obj))))"

text \<open>
  \<^verbatim>\<open>JSON.stringify(v)\<close> (\<open>None\<close> is \<^verbatim>\<open>undefined\<close>) and \<^verbatim>\<open>Array.isArray(v)\<close> with the
  elements.  \<^verbatim>\<open>regex.test(x)\<close> converts its argument to a string, \<^verbatim>\<open>undefined\<close> to
  \<^verbatim>\<open>"undefined"\<close>; \<^verbatim>\<open>undefined.toLowerCase()\<close> raises a TypeError.
\<close>

definition stringifyValue :: "('r, 'h) builtins \<Rightarrow> 'h jsvalue \<Rightarrow> string option" where
  "stringifyValue js v = (case v of Data j \<Rightarrow> Some (JSON_stringify js j) | Host h \<Rightarrow> hostStringify js h)"

definition arrayItems :: "('r, 'h) builtins \<Rightarrow> 'h jsvalue \<Rightarrow> 'h jsvalue list option" where
  "arrayItems js v =
     (case v of
        Data (JArr xs) \<Rightarrow> Some (map Data xs)
      | Data _ \<Rightarrow> None
      | Host h \<Rightarrow> hostArrayItems js h)"

definition testArgument :: "string option \<Rightarrow> string" where
  "testArgument t = (case t of None \<Rightarrow> ''undefined'' | Some s \<Rightarrow> s)"

text \<open>
  \<^verbatim>\<open>fieldValue.some(item => ...)\<close> of \<^verbatim>\<open>checkContains\<close>: the items in order, stopping at
  the first that contains the value, or at the first whose text is \<^verbatim>\<open>undefined\<close>.
\<close>

fun containsSome :: "('r, 'h) builtins \<Rightarrow> string \<Rightarrow> 'h jsvalue list \<Rightarrow> js_error + bool" where
  "containsSome js v [] = Inr False"
| "containsSome js v (item # items) =
     (case item of
        Data (JStr s) \<Rightarrow>
          if str_includes (String_toLowerCase js s) (String_toLowerCase js v) then Inr True
          else containsSome js v items
      | _ \<Rightarrow>
          (case stringifyValue js item of
             None \<Rightarrow> Inl TypeError
           | Some t \<Rightarrow>
               if str_includes (String_toLowerCase js t) (String_toLowerCase js v) then Inr True
               else containsSome js v items))"

text \<open>
  \<^verbatim>\<open>checkContains\<close> and \<^verbatim>\<open>checkEquals\<close> receive \<^verbatim>\<open>expected.value as string\<close>, an unchecked
  cast: on a RegExp object \<^verbatim>\<open>value.toLowerCase()\<close> raises a TypeError the first time it is
  evaluated, and \<^verbatim>\<open>===\<close> against a string is false.
\<close>

definition checkContains ::
  "('r, 'h) builtins \<Rightarrow> (string \<times> json) list option \<Rightarrow> string \<Rightarrow> 'r Pattern \<Rightarrow> js_error + bool" where
  "checkContains js data field v =
     (case data of
        None \<Rightarrow> Inr False
      | Some d \<Rightarrow>
          (case getNestedField js d field of
             None \<Rightarrow> Inr False
           | Some fieldValue \<Rightarrow>
               (case v of
                  PRegExp r \<Rightarrow> (if arrayItems js fieldValue = Some [] then Inr False else Inl TypeError)
                | PString str \<Rightarrow>
                    (case fieldValue of
                       Data (JStr s) \<Rightarrow>
                         Inr (str_includes (String_toLowerCase js s) (String_toLowerCase js str))
                     | _ \<Rightarrow>
                         (case arrayItems js fieldValue of
                            Some items \<Rightarrow> containsSome js str items
                          | None \<Rightarrow>
                              (case stringifyValue js fieldValue of
                                 None \<Rightarrow> Inl TypeError
                               | Some t \<Rightarrow>
                                   Inr (str_includes (String_toLowerCase js t)
                                          (String_toLowerCase js str))))))))"

definition checkEquals ::
  "('r, 'h) builtins \<Rightarrow> (string \<times> json) list option \<Rightarrow> string \<Rightarrow> 'r Pattern \<Rightarrow> js_error + bool" where
  "checkEquals js data field v =
     (case data of
        None \<Rightarrow> Inr False
      | Some d \<Rightarrow>
          (case getNestedField js d field of
             None \<Rightarrow> Inr False
           | Some fieldValue \<Rightarrow>
               (case v of
                  PRegExp r \<Rightarrow> Inr False
                | PString str \<Rightarrow>
                    (case fieldValue of
                       Data (JStr s) \<Rightarrow> Inr (s = str)
                     | _ \<Rightarrow> Inr (stringifyValue js fieldValue = Some str)))))"

definition matchesItem :: "('r, 'h) builtins \<Rightarrow> 'r \<Rightarrow> 'h jsvalue \<Rightarrow> bool" where
  "matchesItem js regex item =
     (case item of
        Data (JStr s) \<Rightarrow> RegExp_test js regex s
      | _ \<Rightarrow> RegExp_test js regex (testArgument (stringifyValue js item)))"

definition checkMatches ::
  "('r, 'h) builtins \<Rightarrow> (string \<times> json) list option \<Rightarrow> string \<Rightarrow> 'r Pattern \<Rightarrow> js_error + bool" where
  "checkMatches js data field pat =
     (case data of
        None \<Rightarrow> Inr False
      | Some d \<Rightarrow>
          (case getNestedField js d field of
             None \<Rightarrow> Inr False
           | Some fieldValue \<Rightarrow>
               (case (case pat of PString p \<Rightarrow> RegExp_new js p | PRegExp r \<Rightarrow> Some r) of
                  None \<Rightarrow> Inl SyntaxError
                | Some regex \<Rightarrow>
                    (case fieldValue of
                       Data (JStr s) \<Rightarrow> Inr (RegExp_test js regex s)
                     | _ \<Rightarrow>
                         (case arrayItems js fieldValue of
                            Some items \<Rightarrow> Inr (list_ex (matchesItem js regex) items)
                          | None \<Rightarrow>
                              Inr (RegExp_test js regex (testArgument (stringifyValue js fieldValue))))))))"

definition gradeResult ::
  "('r, 'h) builtins \<Rightarrow> TaskResult option \<Rightarrow> 'r ExpectedOutcome \<Rightarrow> js_error + bool" where
  "gradeResult js result expected =
     (case result of
        None \<Rightarrow> Inr False
      | Some r \<Rightarrow>
          if \<not> tr_success r then Inr False
          else (case eo_type expected of
                  Exists \<Rightarrow>
                    Inr (tr_success r \<and>
                         (length (case tr_data r of None \<Rightarrow> [] | Some d \<Rightarrow> d) > 0 \<or> length (tr_steps r) > 0))
                | Contains \<Rightarrow>
                    if \<not> truthy (eo_field expected) \<or> \<not> truthyPattern (eo_value expected)
                    then Inr (tr_success r)
                    else checkContains js (tr_data r) (the (eo_field expected)) (the (eo_value expected))
                | Equals \<Rightarrow>
                    if \<not> truthy (eo_field expected) \<or> \<not> truthyPattern (eo_value expected)
                    then Inr (tr_success r)
                    else checkEquals js (tr_data r) (the (eo_field expected)) (the (eo_value expected))
                | Matches \<Rightarrow>
                    if \<not> truthy (eo_field expected) \<or> \<not> truthyPattern (eo_value expected)
                    then Inr (tr_success r)
                    else checkMatches js (tr_data r) (the (eo_field expected)) (the (eo_value expected))
                | OtherOutcome \<Rightarrow> Inr (tr_success r)))"

section \<open>Run state (agent/state.ts)\<close>

record BrowserAgentState =
  task :: string
  currentStep :: nat
  totalSteps :: nat
  url :: string
  pageTitle :: string
  pageContent :: string
  screenshot :: string
  actions :: "Action list"
  results :: "StepResult list"
  lastError :: "string option"
  healingAttempts :: nat
  healingHistory :: "HealingAttempt list"
  currentAction :: "Action option"
  extractedData :: "(string \<times> json) list"
  finalResult :: "TaskResult option"
  needsHealing :: bool
  isComplete :: bool
  failedSteps :: nat
  healingExhausted :: bool

text \<open>
  A node returns a partial update and the channel's reducer folds it into the state.
  \<open>actions\<close>, \<open>results\<close> and \<open>healingHistory\<close> append (\<^verbatim>\<open>[...prev, ...next]\<close>),
  \<open>extractedData\<close> merges key-wise with the later value winning (\<^verbatim>\<open>{...prev, ...next}\<close>),
  every other channel is overwritten.  The node functions below apply the reducers to
  the fields their update names.
\<close>

definition appendReducer :: "'a list \<Rightarrow> 'a list \<Rightarrow> 'a list" where
  "appendReducer prev nxt = prev @ nxt"

definition mergeReducer :: "(string \<times> json) list \<Rightarrow> (string \<times> json) list \<Rightarrow> (string \<times> json) list" where
  "mergeReducer prev nxt = fold (\<lambda>(k, v). AList.update k v) nxt prev"

text \<open>\<^verbatim>\<open>graph.invoke({ task })\<close>: every channel but \<open>task\<close> starts at its default.\<close>

definition initialState :: "string \<Rightarrow> BrowserAgentState" where
  "initialState t =
     \<lparr> task = t, currentStep = 0, totalSteps = 0, url = [], pageTitle = [], pageContent = [],
       screenshot = [], actions = [], results = [], lastError = None, healingAttempts = 0,
       healingHistory = [], currentAction = None, extractedData = [], finalResult = None,
       needsHealing = False, isComplete = False, failedSteps = 0, healingExhausted = False \<rparr>"

section \<open>Collaborators\<close>

text \<open>
  What the browser, the planner, the vision locator, the language model and the clock
  answer during one node invocation.  A node reads the fields of the calls it makes.
  \<open>o_plan\<close> is \<open>None\<close> when \<^verbatim>\<open>planTask\<close> throws; \<open>o_threw\<close> is the text of the error
  when an executor's \<^verbatim>\<open>try\<close> block throws; \<open>o_captureFails\<close> says that a
  \<^verbatim>\<open>captureScreenshot\<close> outside any \<^verbatim>\<open>try\<close> block rejects, which rejects the node and
  aborts the run; \<open>o_healThrows\<close> names the stage of the healing ladder at which an awaited
  browser call rejects (\<^verbatim>\<open>findElement\<close> itself catches its errors and returns null);
  \<open>o_toLowerCase\<close> is the runtime's \<^verbatim>\<open>String.prototype.toLowerCase\<close>.
  The browser is initialised (\<^verbatim>\<open>createAgent\<close> does it before any run), so \<^verbatim>\<open>getPage\<close>
  does not throw.
\<close>

datatype HealStage = AtBackoff | AtVision | AtScroll | AtWait

record observation =
  o_now :: nat
  o_plan :: "Action list option"
  o_threw :: "string option"
  o_duration :: nat
  o_screenshot :: string
  o_captureFails :: bool
  o_url :: string
  o_pageTitle :: string
  o_pageContent :: string
  o_extractedData :: "(string \<times> json) list"
  o_healThrows :: "HealStage option"
  o_detected :: "DetectedElement option"
  o_scrolledScreenshot :: string
  o_scrollDetected :: "DetectedElement option"
  o_waitedScreenshot :: string
  o_waitDetected :: "DetectedElement option"
  o_toLowerCase :: "string \<Rightarrow> string"

text \<open>The calls a node makes to its collaborators, logged in order.\<close>

datatype effect =
    PlannerCall
  | GetUrl
  | CaptureScreenshot
  | ExecutorAttempt ActionType
  | Backoff nat
  | VisionRedetection
  | ScrollAndDetect
  | WaitAndDetect

section \<open>Action executors (agent/nodes)\<close>

text \<open>
  An executor returns \<open>None\<close> when its promise rejects, otherwise the updated state and
  the collaborator calls it made.
\<close>

definition guardFails :: "ActionType \<Rightarrow> Action option \<Rightarrow> bool" where
  "guardFails ty act = (case act of None \<Rightarrow> True | Some a \<Rightarrow> a_type a \<noteq> ty \<or> \<not> truthy (a_target a))"

definition navigateNode :: "observation \<Rightarrow> BrowserAgentState \<Rightarrow> (BrowserAgentState \<times> effect list) option" where
  "navigateNode ob s =
     (if guardFails Navigate (currentAction s) then Some (s\<lparr> needsHealing := False \<rparr>, [])
      else let a = the (currentAction s) in
        (case o_threw ob of
           None \<Rightarrow>
             Some (s\<lparr> url := o_url ob, pageTitle := o_pageTitle ob,
                      pageContent := take 10000 (o_pageContent ob), screenshot := o_screenshot ob,
                      needsHealing := False,
                      results := appendReducer (results s)
                        [\<lparr> sr_action = a, sr_success = True, sr_error = None, sr_duration = o_duration ob,
                           sr_screenshot = Some (o_screenshot ob), sr_healingUsed = False \<rparr>] \<rparr>,
                   [ExecutorAttempt Navigate])
         | Some err \<Rightarrow>
             Some (s\<lparr> lastError := Some err, needsHealing := True,
                      results := appendReducer (results s)
                        [\<lparr> sr_action = a, sr_success = False, sr_error = Some err, sr_duration = o_duration ob,
                           sr_screenshot = None, sr_healingUsed = False \<rparr>] \<rparr>,
                   [ExecutorAttempt Navigate])))"

definition isSearchButtonClick :: "(string \<Rightarrow> string) \<Rightarrow> string \<Rightarrow> bool" where
  "isSearchButtonClick toLowerCase tgt =
     (str_includes (toLowerCase tgt) ''search'' \<and>
      (str_includes (toLowerCase tgt) ''button'' \<or>
       str_includes (toLowerCase tgt) ''icon'' \<or>
       str_includes (toLowerCase tgt) ''magnifying''))"

definition alreadyNavigated :: "string \<Rightarrow> bool" where
  "alreadyNavigated currentUrl =
     (str_includes currentUrl ''/wiki/'' \<or> str_includes currentUrl ''search?'' \<or>
      str_includes currentUrl ''/search/'' \<or> str_includes currentUrl ''?q='' \<or>
      str_includes currentUrl ''?search='')"

definition clickNode :: "observation \<Rightarrow> BrowserAgentState \<Rightarrow> (BrowserAgentState \<times> effect list) option" where
  "clickNode ob s =
     (if guardFails Click (currentAction s) then Some (s\<lparr> needsHealing := False \<rparr>, [])
      else let a = the (currentAction s); tgt = the (a_target a) in
        if isSearchButtonClick (o_toLowerCase ob) tgt \<and> alreadyNavigated (o_url ob) then
          (if o_captureFails ob then None
           else Some (s\<lparr> screenshot := o_screenshot ob, needsHealing := False,
                         results := appendReducer (results s)
                           [\<lparr> sr_action = a, sr_success = True, sr_error = None, sr_duration = o_duration ob,
                              sr_screenshot = Some (o_screenshot ob), sr_healingUsed = False \<rparr>] \<rparr>,
                      [GetUrl, CaptureScreenshot]))
        else
          (case o_threw ob of
             None \<Rightarrow>
               Some (s\<lparr> screenshot := o_screenshot ob, pageContent := take 10000 (o_pageContent ob),
                        needsHealing := False,
                        results := appendReducer (results s)
                          [\<lparr> sr_action = a, sr_success = True, sr_error = None, sr_duration = o_duration ob,
                             sr_screenshot = Some (o_screenshot ob),
                             sr_healingUsed = (healingAttempts s > 0) \<rparr>] \<rparr>,
                     (if isSearchButtonClick (o_toLowerCase ob) tgt then [GetUrl] else []) @ [ExecutorAttempt Click])
           | Some err \<Rightarrow>
               if o_captureFails ob then None
               else
                 Some (s\<lparr> screenshot := o_screenshot ob, lastError := Some err, needsHealing := True,
                          healingAttempts := healingAttempts s + 1,
                          results := appendReducer (results s)
                            [\<lparr> sr_action = a, sr_success = False, sr_error = Some err,
                               sr_duration = o_duration ob, sr_screenshot = Some (o_screenshot ob),
                               sr_healingUsed = (healingAttempts s > 0) \<rparr>] \<rparr>,
                       (if isSearchButtonClick (o_toLowerCase ob) tgt then [GetUrl] else []) @
                       [ExecutorAttempt Click, CaptureScreenshot])))"

definition fillNode :: "observation \<Rightarrow> BrowserAgentState \<Rightarrow> (BrowserAgentState \<times> effect list) option" where
  "fillNode ob s =
     (if guardFails Fill (currentAction s) then Some (s\<lparr> needsHealing := False \<rparr>, [])
      else let a = the (currentAction s) in
        (case o_threw ob of
           None \<Rightarrow>
             Some (s\<lparr> screenshot := o_screenshot ob, needsHealing := False,
                      results := appendReducer (results s)
                        [\<lparr> sr_action = a, sr_success = True, sr_error = None, sr_duration = o_duration ob,
                           sr_screenshot = Some (o_screenshot ob),
                           sr_healingUsed = (healingAttempts s > 0) \<rparr>] \<rparr>,
                   [ExecutorAttempt Fill])
         | Some err \<Rightarrow>
             if o_captureFails ob then None
             else
               Some (s\<lparr> screenshot := o_screenshot ob, lastError := Some err, needsHealing := True,
                        healingAttempts := healingAttempts s + 1,
                        results := appendReducer (results s)
                          [\<lparr> sr_action = a, sr_success = False, sr_error = Some err,
                             sr_duration = o_duration ob, sr_screenshot = Some (o_screenshot ob),
                             sr_healingUsed = (healingAttempts s > 0) \<rparr>] \<rparr>,
                     [ExecutorAttempt Fill, CaptureScreenshot])))"

definition extractNode :: "observation \<Rightarrow> BrowserAgentState \<Rightarrow> (BrowserAgentState \<times> effect list) option" where
  "extractNode ob s =
     (if guardFails Extract (currentAction s) then Some (s\<lparr> needsHealing := False \<rparr>, [])
      else let a = the (currentAction s) in
        (case o_threw ob of
           None \<Rightarrow>
             Some (s\<lparr> screenshot := o_screenshot ob,
                      extractedData := mergeReducer (extractedData s) (o_extractedData ob),
                      needsHealing := False,
                      results := appendReducer (results s)
                        [\<lparr> sr_action = a, sr_success = True, sr_error = None, sr_duration = o_duration ob,
                           sr_screenshot = Some (o_screenshot ob), sr_healingUsed = False \<rparr>] \<rparr>,
                   [ExecutorAttempt Extract])
         | Some err \<Rightarrow>
             if o_captureFails ob then None
             else
               Some (s\<lparr> screenshot := o_screenshot ob, lastError := Some err, needsHealing := True,
                        results := appendReducer (results s)
                          [\<lparr> sr_action = a, sr_success = False, sr_error = Some err,
                             sr_duration = o_duration ob, sr_screenshot = Some (o_screenshot ob),
                             sr_healingUsed = False \<rparr>] \<rparr>,
                     [ExecutorAttempt Extract, CaptureScreenshot])))"

section \<open>Self-healing node (agent/nodes/heal.ts)\<close>

definition backoffDelay :: "HealingConfig \<Rightarrow> nat \<Rightarrow> nat" where
  "backoffDelay hc attempts =
     (if backoff hc = Exponential then baseDelayMs hc * 2 ^ attempts
      else baseDelayMs hc * (attempts + 1))"

text \<open>\<^verbatim>\<open>detected && detected.confidence > 0.6\<close>\<close>

definition accepted :: "DetectedElement option \<Rightarrow> bool" where
  "accepted d = (case d of None \<Rightarrow> False | Some e \<Rightarrow> confidence e > 6 / 10)"

definition originalErrorOf :: "BrowserAgentState \<Rightarrow> string" where
  "originalErrorOf s = (case lastError s of None \<Rightarrow> ''Unknown error'' | Some e \<Rightarrow> e)"

definition healRepaired ::
  "observation \<Rightarrow> BrowserAgentState \<Rightarrow> Action \<Rightarrow> string \<Rightarrow> DetectedElement \<Rightarrow> string \<Rightarrow> BrowserAgentState" where
  "healRepaired ob s a strat found shot =
     s\<lparr> currentAction := Some (a\<lparr> a_target := Some (selector found) \<rparr>),
        screenshot := shot, needsHealing := True,
        healingAttempts := healingAttempts s + 1,
        healingHistory := appendReducer (healingHistory s)
          [\<lparr> attemptNumber = healingAttempts s + 1, originalError = originalErrorOf s,
             strategy = strat, elementFound = True, newSelector = Some (selector found),
             ha_screenshot = shot, timestamp = o_now ob \<rparr>] \<rparr>"

definition healThrew :: "observation \<Rightarrow> BrowserAgentState \<Rightarrow> BrowserAgentState" where
  "healThrew ob s =
     s\<lparr> needsHealing := True, healingAttempts := healingAttempts s + 1,
        healingHistory := appendReducer (healingHistory s)
          [\<lparr> attemptNumber = healingAttempts s + 1, originalError = originalErrorOf s,
             strategy = ''error'', elementFound = False, newSelector = None,
             ha_screenshot = screenshot s, timestamp = o_now ob \<rparr>] \<rparr>"

definition healNode :: "HealingConfig \<Rightarrow> observation \<Rightarrow> BrowserAgentState \<Rightarrow> BrowserAgentState \<times> effect list" where
  "healNode hc ob s =
     (if healingAttempts s \<ge> maxRetries hc then
        (s\<lparr> needsHealing := False, healingExhausted := True,
            healingHistory := appendReducer (healingHistory s)
              [\<lparr> attemptNumber = healingAttempts s, originalError = originalErrorOf s,
                 strategy = ''exhausted'', elementFound = False, newSelector = None,
                 ha_screenshot = screenshot s, timestamp = o_now ob \<rparr>] \<rparr>, [])
      else if currentAction s = None \<or> \<not> truthy (a_target (the (currentAction s))) then
        (s\<lparr> needsHealing := False \<rparr>, [])
      else
        let a = the (currentAction s); delay = backoffDelay hc (healingAttempts s) in
        if o_healThrows ob = Some AtBackoff then (healThrew ob s, [Backoff delay])
        else if o_healThrows ob = Some AtVision then (healThrew ob s, [Backoff delay, VisionRedetection])
        else if accepted (o_detected ob) then
          (healRepaired ob s a ''vision-redetection'' (the (o_detected ob)) (o_screenshot ob),
           [Backoff delay, VisionRedetection])
        else if o_healThrows ob = Some AtScroll then
          (healThrew ob s, [Backoff delay, VisionRedetection, ScrollAndDetect])
        else if accepted (o_scrollDetected ob) then
          (healRepaired ob s a ''scroll-and-detect'' (the (o_scrollDetected ob)) (o_scrolledScreenshot ob),
           [Backoff delay, VisionRedetection, ScrollAndDetect])
        else if o_healThrows ob = Some AtWait then
          (healThrew ob s, [Backoff delay, VisionRedetection, ScrollAndDetect, WaitAndDetect])
        else if accepted (o_waitDetected ob) then
          (healRepaired ob s a ''wait-and-detect'' (the (o_waitDetected ob)) (o_waitedScreenshot ob),
           [Backoff delay, VisionRedetection, ScrollAndDetect, WaitAndDetect])
        else
          (s\<lparr> screenshot := o_screenshot ob, needsHealing := True,
              healingAttempts := healingAttempts s + 1,
              healingHistory := appendReducer (healingHistory s)
                [\<lparr> attemptNumber = healingAttempts s + 1, originalError = originalErrorOf s,
                   strategy = ''all-strategies-failed'', elementFound = False, newSelector = None,
                   ha_screenshot = o_screenshot ob, timestamp = o_now ob \<rparr>] \<rparr>,
           [Backoff delay, VisionRedetection, ScrollAndDetect, WaitAndDetect]))"

section \<open>The graph (agent/graph.ts)\<close>

datatype node =
    N_plan | N_router | N_navigate | N_click | N_fill | N_extract | N_heal | N_success
  | N_finalize | N_END | N_aborted

definition planNode :: "observation \<Rightarrow> BrowserAgentState \<Rightarrow> BrowserAgentState option" where
  "planNode ob s =
     (case o_plan ob of
        None \<Rightarrow> None
      | Some planned \<Rightarrow>
          Some (s\<lparr> actions := appendReducer (actions s) planned, totalSteps := length planned,
                   currentStep := 0 \<rparr>))"

text \<open>\<^verbatim>\<open>state.actions[state.currentStep]\<close> is \<^verbatim>\<open>undefined\<close> beyond the end of the array.\<close>

definition routerNode :: "BrowserAgentState \<Rightarrow> BrowserAgentState" where
  "routerNode s =
     (if currentStep s \<ge> totalSteps s then s\<lparr> isComplete := True \<rparr>
      else s\<lparr> currentAction :=
                 (if currentStep s < length (actions s) then Some (actions s ! currentStep s) else None),
              needsHealing := False \<rparr>)"

definition successNode :: "BrowserAgentState \<Rightarrow> BrowserAgentState" where
  "successNode s = s\<lparr> currentStep := currentStep s + 1, healingAttempts := 0, needsHealing := False \<rparr>"

text \<open>
  \<^verbatim>\<open>state.results[state.results.length - 1]?.success ?? false\<close> is false on an empty list.
  The screenshots kept are the truthy ones: present and not empty.
\<close>

definition lastStepSucceeded :: "StepResult list \<Rightarrow> bool" where
  "lastStepSucceeded rs = (if rs = [] then False else sr_success (last rs))"

definition finalizeNode :: "BrowserAgentState \<Rightarrow> BrowserAgentState" where
  "finalizeNode s =
     (let completedSteps = currentStep s;
          plannedSteps = totalSteps s;
          ok = (completedSteps \<ge> plannedSteps \<or>
                (lastStepSucceeded (results s) \<and> length (map fst (extractedData s)) > 0));
          totalDuration = fold (\<lambda>r acc. acc + sr_duration r) (results s) 0
      in s\<lparr> finalResult := Some
             \<lparr> tr_success = ok, tr_data = Some (extractedData s), tr_steps = results s,
               tr_healingAttempts = healingHistory s, tr_duration = totalDuration,
               tr_screenshots = map the (filter truthy (map sr_screenshot (results s))) \<rparr> \<rparr>)"

definition routerEdge :: "BrowserAgentState \<Rightarrow> node" where
  "routerEdge s =
     (if isComplete s then N_finalize
      else (case currentAction s of
              None \<Rightarrow> N_finalize
            | Some a \<Rightarrow>
                (case a_type a of
                   Navigate \<Rightarrow> N_navigate
                 | Click \<Rightarrow> N_click
                 | Fill \<Rightarrow> N_fill
                 | Extract \<Rightarrow> N_extract
                 | _ \<Rightarrow> N_success)))"

definition actionEdge :: "BrowserAgentState \<Rightarrow> node" where
  "actionEdge s = (if needsHealing s then N_heal else N_success)"

definition healEdge :: "HealingConfig \<Rightarrow> BrowserAgentState \<Rightarrow> node" where
  "healEdge hc s =
     (if healingAttempts s \<ge> maxRetries hc \<or> \<not> needsHealing s then N_success
      else (case currentAction s of
              None \<Rightarrow> N_success
            | Some a \<Rightarrow>
                (case a_type a of
                   Click \<Rightarrow> N_click
                 | Fill \<Rightarrow> N_fill
                 | _ \<Rightarrow> N_success)))"

text \<open>
  One transition of the compiled graph: run the node the machine is in, apply its update,
  then follow the edge chosen on the updated state.  A rejected node aborts the run.
  The framework's bound on the number of transitions of one invocation is not part of
  the graph: it can only cut a run short.
\<close>

type_synonym config = "node \<times> BrowserAgentState \<times> effect list"

definition afterExecutor :: "config \<Rightarrow> (BrowserAgentState \<times> effect list) option \<Rightarrow> config" where
  "afterExecutor c r =
     (case r of
        None \<Rightarrow> (N_aborted, fst (snd c), snd (snd c))
      | Some (s', es) \<Rightarrow> (actionEdge s', s', snd (snd c) @ es))"

definition step :: "HealingConfig \<Rightarrow> observation \<Rightarrow> config \<Rightarrow> config" where
  "step hc ob c =
     (let n = fst c; s = fst (snd c); tr = snd (snd c) in
      case n of
        N_plan \<Rightarrow>
          (case planNode ob s of
             None \<Rightarrow> (N_aborted, s, tr @ [PlannerCall])
           | Some s' \<Rightarrow> (N_router, s', tr @ [PlannerCall]))
      | N_router \<Rightarrow> (routerEdge (routerNode s), routerNode s, tr)
      | N_navigate \<Rightarrow> afterExecutor c (navigateNode ob s)
      | N_click \<Rightarrow> afterExecutor c (clickNode ob s)
      | N_fill \<Rightarrow> afterExecutor c (fillNode ob s)
      | N_extract \<Rightarrow> afterExecutor c (extractNode ob s)
      | N_heal \<Rightarrow> (healEdge hc (fst (healNode hc ob s)), fst (healNode hc ob s), tr @ snd (healNode hc ob s))
      | N_success \<Rightarrow> (N_router, successNode s, tr)
      | N_finalize \<Rightarrow> (N_END, finalizeNode s, tr)
      | N_END \<Rightarrow> c
      | N_aborted \<Rightarrow> c)"

definition run :: "HealingConfig \<Rightarrow> string \<Rightarrow> observation list \<Rightarrow> config" where
  "run hc t obs = fold (step hc) obs (N_plan, initialState t, [])"


text \<open>The components of a machine configuration, and the run from the start node.\<close>

definition node_of :: "config \<Rightarrow> node" where
  "node_of c = fst c"

definition state_of :: "config \<Rightarrow> BrowserAgentState" where
  "state_of c = fst (snd c)"

definition effects_of :: "config \<Rightarrow> effect list" where
  "effects_of c = snd (snd c)"

definition steps :: "HealingConfig \<Rightarrow> observation list \<Rightarrow> config \<Rightarrow> config" where
  "steps hc obs c = fold (step hc) obs c"

text \<open>The action type an executor node serves.\<close>

fun executorType :: "node \<Rightarrow> ActionType option" where
  "executorType N_navigate = Some Navigate"
| "executorType N_click = Some Click"
| "executorType N_fill = Some Fill"
| "executorType N_extract = Some Extract"
| "executorType _ = None"

text \<open>
  A healing cycle is: the executor node fails and hands over to \<open>heal\<close>, and the heal edge
  re-dispatches to the same executor node.  \<open>healCycles hc X cycles c\<close> follows one such
  cycle per pair of observations from the configuration \<open>c\<close> at node \<open>X\<close>, and is \<open>None\<close> when
  the run leaves that path.
\<close>

fun healCycles :: "HealingConfig \<Rightarrow> node \<Rightarrow> (observation \<times> observation) list \<Rightarrow> config \<Rightarrow> config option" where
  "healCycles hc X [] c = (if node_of c = X then Some c else None)"
| "healCycles hc X ((failed, healed) # rest) c =
     (if node_of c = X \<and> node_of (step hc failed c) = N_heal \<and>
         node_of (step hc healed (step hc failed c)) = X
      then healCycles hc X rest (step hc healed (step hc failed c))
      else None)"

section \<open>Sample collaborators for the worked examples\<close>

text \<open>
  A small stand-in for the JavaScript runtime, used only to evaluate the examples: case
  folding of the ASCII letters, a pattern that is a literal substring (and \<^verbatim>\<open>(\<close> as a
  pattern that does not compile), \<^verbatim>\<open>JSON.stringify\<close> of the scalars, and a few members
  of the two standard prototypes.
\<close>

definition asciiLowerChar :: "char \<Rightarrow> char" where
  "asciiLowerChar ch =
     (let code = (of_char ch :: nat) in if 65 \<le> code \<and> code \<le> 90 then char_of (code + 32) else ch)"

definition asciiLowerCase :: "string \<Rightarrow> string" where
  "asciiLowerCase s = map asciiLowerChar s"

datatype sampleHost = ObjectPrototype | ArrayPrototype | BuiltinFunction

definition sampleMethods :: "string list" where
  "sampleMethods = [''constructor'', ''toString'', ''hasOwnProperty'', ''valueOf'']"

definition sampleInherited :: "json \<Rightarrow> string \<Rightarrow> sampleHost jsvalue option" where
  "sampleInherited current part =
     (if part = ''__proto__''
      then Some (Host (case current of JArr xs \<Rightarrow> ArrayPrototype | _ \<Rightarrow> ObjectPrototype))
      else if part \<in> set sampleMethods then Some (Host BuiltinFunction)
      else (case current of
              JArr xs \<Rightarrow> if part = ''map'' then Some (Host BuiltinFunction) else None
            | _ \<Rightarrow> None))"

definition sampleHostGet :: "sampleHost \<Rightarrow> string \<Rightarrow> sampleHost jsvalue option" where
  "sampleHostGet h part =
     (case h of
        ObjectPrototype \<Rightarrow>
          if part = ''__proto__'' then Some (Data JNull)
          else if part \<in> set sampleMethods then Some (Host BuiltinFunction) else None
      | ArrayPrototype \<Rightarrow>
          if part = ''__proto__'' then Some (Host ObjectPrototype)
          else if part = ''length'' then Some (Data (JNum 0))
          else if part \<in> set (''map'' # sampleMethods) then Some (Host BuiltinFunction) else None
      | BuiltinFunction \<Rightarrow> None)"

definition exampleBuiltins :: "(string, sampleHost) builtins" where
  "exampleBuiltins =
     \<lparr> String_toLowerCase = asciiLowerCase,
       JSON_stringify = (\<lambda>j. case j of JNull \<Rightarrow> ''null'' | JBool b \<Rightarrow> (if b then ''true'' else ''false'') | _ \<Rightarrow> ''?''),
       RegExp_new = (\<lambda>p. if p = ''('' then None else Some p),
       RegExp_test = (\<lambda>r s. str_includes s r),
       inherited = sampleInherited,
       hostGet = sampleHostGet,
       hostIsObject = (\<lambda>h. h \<noteq> BuiltinFunction),
       hostArrayItems = (\<lambda>h. if h = ArrayPrototype then Some [] else None),
       hostStringify = (\<lambda>h. case h of ObjectPrototype \<Rightarrow> Some ''{}'' | ArrayPrototype \<Rightarrow> Some ''[]''
                              | BuiltinFunction \<Rightarrow> None) \<rparr>"

definition exampleData :: "(string \<times> json) list" where
  "exampleData =
     [(''title'', JStr ''Hello World''),
      (''book'', JObj [(''tags'', JArr [JStr ''Fiction'', JNull]), (''price'', JNum 12)])]"

definition exampleResult :: "bool \<Rightarrow> TaskResult" where
  "exampleResult ok =
     \<lparr> tr_success = ok, tr_data = Some exampleData, tr_steps = [], tr_healingAttempts = [],
       tr_duration = 0, tr_screenshots = [] \<rparr>"

section \<open>Sample runs for the worked examples\<close>

text \<open>
  A healing configuration with the given retry ceiling, an observation in which every
  collaborator call succeeds and the vision locator finds nothing, and variations of it:
  a planner answer, a throwing executor, a vision locator that finds a selector at
  confidence \<open>0.9\<close>.
\<close>

definition exampleConfig :: "nat \<Rightarrow> HealingConfig" where
  "exampleConfig m = \<lparr> enabled = True, maxRetries = m, backoff = Exponential, baseDelayMs = 1000 \<rparr>"

definition quiet :: observation where
  "quiet =
     \<lparr> o_now = 0, o_plan = Some [], o_threw = None, o_duration = 5, o_screenshot = ''img'',
       o_captureFails = False, o_url = ''https://example.com'', o_pageTitle = ''Example'',
       o_pageContent = ''<html>'', o_extractedData = [(''title'', JStr ''Example'')],
       o_healThrows = None, o_detected = None, o_scrolledScreenshot = ''img2'',
       o_scrollDetected = None, o_waitedScreenshot = ''img3'', o_waitDetected = None,
       o_toLowerCase = asciiLowerCase \<rparr>"

definition planning :: "Action list \<Rightarrow> observation" where
  "planning acts = quiet\<lparr> o_plan := Some acts \<rparr>"

definition failing :: "string \<Rightarrow> observation" where
  "failing err = quiet\<lparr> o_threw := Some err \<rparr>"

definition detecting :: "string \<Rightarrow> observation" where
  "detecting sel = quiet\<lparr> o_detected := Some \<lparr> description = ''found'', selector = sel, confidence = 9 / 10 \<rparr> \<rparr>"

definition mkAction :: "ActionType \<Rightarrow> string option \<Rightarrow> Action" where
  "mkAction ty tgt = \<lparr> a_type = ty, a_target = tgt, a_value = None, a_timeout = None \<rparr>"

definition exampleStep :: "bool \<Rightarrow> StepResult" where
  "exampleStep ok =
     \<lparr> sr_action = mkAction Extract (Some ''headline''), sr_success = ok,
       sr_error = (if ok then None else Some ''boom''), sr_duration = 7,
       sr_screenshot = Some ''img'', sr_healingUsed = False \<rparr>"

text \<open>Observation sequences: plan one action, route it, and see its executor throw.\<close>

definition navigateRun :: "observation list" where
  "navigateRun = [planning [mkAction Navigate (Some ''https://example.com'')], quiet, failing ''timeout'']"

definition extractRun :: "observation list" where
  "extractRun = [planning [mkAction Extract (Some ''all product titles'')], quiet, failing ''no response'']"

definition clickRun :: "observation list" where
  "clickRun = [planning [mkAction Click (Some ''Login'')], quiet, failing ''not found'']"

text \<open>A plan of a \<open>wait\<close> and a \<open>screenshot\<close> action, and a plan of a click without target.\<close>

definition waitRun :: "observation list" where
  "waitRun = [planning [mkAction Wait (Some ''results loaded''), mkAction Screenshot None]]"

definition noTargetRun :: "observation list" where
  "noTargetRun = [planning [mkAction Click None], quiet]"

text \<open>Three states at the finalize node.\<close>

definition finishedState :: BrowserAgentState where
  "finishedState = (initialState ''t'')\<lparr> currentStep := 2, totalSteps := 2 \<rparr>"

definition partialWithData :: BrowserAgentState where
  "partialWithData =
     (initialState ''t'')\<lparr> currentStep := 1, totalSteps := 2, results := [exampleStep True],
        extractedData := [(''title'', JStr ''Example'')] \<rparr>"

definition partialFailed :: BrowserAgentState where
  "partialFailed =
     (initialState ''t'')\<lparr> currentStep := 1, totalSteps := 2, results := [exampleStep False] \<rparr>"

section \<open>The invariant of the healing counter\<close>

text \<open>
  The counter stays at or below the ceiling; it is strictly below it whenever an executor
  is about to run, and zero at the plan, router and finalize nodes and at the end.
\<close>

definition counterInv :: "HealingConfig \<Rightarrow> config \<Rightarrow> bool" where
  "counterInv hc c =
     (healingAttempts (state_of c) \<le> maxRetries hc \<and>
      (executorType (node_of c) \<noteq> None \<longrightarrow> healingAttempts (state_of c) < maxRetries hc) \<and>
      (node_of c \<in> {N_plan, N_router, N_finalize, N_END} \<longrightarrow> healingAttempts (state_of c) = 0))"

text \<open>
  The plan's length is the step total, the plan node starts from an empty action list, and
  \<open>isComplete\<close> is set only on the way to the finalize node.
\<close>

definition shapeInv :: "config \<Rightarrow> bool" where
  "shapeInv c =
     (totalSteps (state_of c) = length (actions (state_of c)) \<and>
      (node_of c = N_plan \<longrightarrow> actions (state_of c) = []) \<and>
      (isComplete (state_of c) \<longrightarrow> node_of c \<in> {N_finalize, N_END}))"

section \<open>Properties of the metrics\<close>

lemma some_nth: "(\<exists>x\<in>set xs. x) = (\<exists>i<length xs. xs ! i)" for xs :: "bool list"
  by (metis in_set_conv_nth)

text \<open>
  C6.  \<open>calculatePassAtK\<close> is monotone in \<open>k\<close>: if it holds of the first \<open>k1\<close> attempts it
  holds of the first \<open>k2 \<ge> k1\<close>; and it is true exactly when some attempt among the first
  \<open>k\<close> of the list, in order, succeeded.
\<close>

theorem calculatePassAtK_monotone:
  "(k1 \<le> k2 \<longrightarrow> calculatePassAtK rs k1 \<longrightarrow> calculatePassAtK rs k2) \<and>
   calculatePassAtK rs k = (\<exists>i<min k (length rs). rs ! i)"
proof (intro conjI impI)
  assume le: "k1 \<le> k2" and pass: "calculatePassAtK rs k1"
  from pass obtain x where "x \<in> set (take k1 rs)" "x"
    by (auto simp: calculatePassAtK_def list_ex_iff)
  moreover have "set (take k1 rs) \<subseteq> set (take k2 rs)"
    using le by (rule set_take_subset_set_take)
  ultimately show "calculatePassAtK rs k2"
    by (auto simp: calculatePassAtK_def list_ex_iff)
next
  have "calculatePassAtK rs k = (\<exists>i<length (take k rs). take k rs ! i)"
    by (simp add: calculatePassAtK_def list_ex_iff some_nth)
  also have "\<dots> = (\<exists>i<min k (length rs). rs ! i)"
    by (auto simp: min.commute)
  finally show "calculatePassAtK rs k = (\<exists>i<min k (length rs). rs ! i)" .
qed

theorem calculatePassAtK_monotone_witness:
  "(2::nat) \<le> 3 \<and> calculatePassAtK [False, True, False] 2 \<and>
   calculatePassAtK [False, True, False] 3 \<and> \<not> calculatePassAtK [False, True, False] 1"
  using calculatePassAtK_monotone[of 2 3 "[False, True, False]" 1]
  by (simp add: calculatePassAtK_def)

text \<open>The loop of \<open>estimatePassAtK\<close> computes the running product.\<close>

lemma ratio_loop_prod:
  "ratio_loop n c k = (\<Prod>i<k. (of_nat n - of_nat c - of_nat i) / (of_nat n - of_nat i))"
proof -
  have "fold (ratio_step n c) [0..<k] r =
        r * (\<Prod>i<k. (of_nat n - of_nat c - of_nat i) / (of_nat n - of_nat i))" for r
    by (induction k arbitrary: r) (simp_all add: ratio_step_def mult.assoc mult.commute)
  then show ?thesis by (simp add: ratio_loop_def)
qed

text \<open>Once \<open>n - c < k\<close> the product meets the factor \<open>0\<close> at \<open>i = n - c\<close>.\<close>

lemma ratio_loop_zero:
  assumes "c \<le> n" "n - c < k"
  shows "ratio_loop n c k = 0"
proof -
  have z: "(of_nat n - of_nat c - of_nat (n - c) :: rat) / (of_nat n - of_nat (n - c)) = 0"
    using assms(1) by (simp add: of_nat_diff)
  have m: "n - c \<in> {..<k}" using assms(2) by simp
  have "\<exists>i\<in>{..<k}. (of_nat n - of_nat c - of_nat i :: rat) / (of_nat n - of_nat i) = 0"
    using z m by (rule bexI)
  then show ?thesis
    unfolding ratio_loop_prod by (simp add: prod_zero_iff)
qed

lemma ratio_factor_bounds:
  assumes "i < k" "k \<le> n - c" "c \<le> n"
  shows "0 \<le> (of_nat n - of_nat c - of_nat i :: rat) / (of_nat n - of_nat i)"
    and "(of_nat n - of_nat c - of_nat i :: rat) / (of_nat n - of_nat i) \<le> 1"
proof -
  have i: "i < n - c" "i < n" using assms by auto
  have num: "(of_nat n - of_nat c - of_nat i :: rat) = of_nat (n - c - i)"
    using assms i by (simp add: of_nat_diff)
  have den: "(of_nat n - of_nat i :: rat) = of_nat (n - i)"
    using i by (simp add: of_nat_diff)
  show "0 \<le> (of_nat n - of_nat c - of_nat i :: rat) / (of_nat n - of_nat i)"
    unfolding num den by simp
  have "n - c - i \<le> n - i" by simp
  then have "(of_nat (n - c - i) :: rat) \<le> of_nat (n - i)" by (simp only: of_nat_le_iff)
  moreover have "(0::rat) < of_nat (n - i)" using i by simp
  ultimately show "(of_nat n - of_nat c - of_nat i :: rat) / (of_nat n - of_nat i) \<le> 1"
    unfolding num den by (simp add: divide_le_eq_1)
qed

lemma ratio_loop_nonneg:
  assumes "c \<le> n"
  shows "0 \<le> ratio_loop n c k"
proof (cases "n - c < k")
  case True
  then show ?thesis using assms by (simp add: ratio_loop_zero)
next
  case False
  then have "k \<le> n - c" by simp
  then show ?thesis
    unfolding ratio_loop_prod using assms
    by (intro prod_nonneg) (simp add: ratio_factor_bounds(1))
qed

lemma ratio_loop_le_1:
  assumes "c \<le> n"
  shows "ratio_loop n c k \<le> 1"
proof (cases "n - c < k")
  case True
  then show ?thesis using assms by (simp add: ratio_loop_zero)
next
  case False
  then have "k \<le> n - c" by simp
  then show ?thesis
    unfolding ratio_loop_prod using assms
    by (intro prod_le_1) (simp add: ratio_factor_bounds)
qed

lemma ratio_loop_antimono:
  assumes "c \<le> c'" "c' \<le> n"
  shows "ratio_loop n c' k \<le> ratio_loop n c k"
proof (cases "n - c' < k")
  case True
  then show ?thesis using assms by (simp add: ratio_loop_zero ratio_loop_nonneg)
next
  case False
  then have k: "k \<le> n - c'" by simp
  show ?thesis
    unfolding ratio_loop_prod
  proof (intro prod_mono conjI)
    fix i assume "i \<in> {..<k}"
    then have i: "i < k" by simp
    show "0 \<le> (of_nat n - of_nat c' - of_nat i :: rat) / (of_nat n - of_nat i)"
      using ratio_factor_bounds(1)[OF i k assms(2)] .
    have "i < n" using i k by simp
    then have "(0::rat) < of_nat n - of_nat i" by simp
    moreover have "(of_nat c :: rat) \<le> of_nat c'" using assms(1) by simp
    ultimately show "(of_nat n - of_nat c' - of_nat i :: rat) / (of_nat n - of_nat i)
        \<le> (of_nat n - of_nat c - of_nat i) / (of_nat n - of_nat i)"
      by (simp add: divide_right_mono)
  qed
qed

lemma estimatePassAtK_mono:
  assumes "c \<le> c'"
  shows "estimatePassAtK n c k \<le> estimatePassAtK n c' k"
proof (cases "n < k")
  case True
  then show ?thesis using assms by (simp add: estimatePassAtK_def)
next
  case nk: False
  show ?thesis
  proof (cases "c = 0")
    case True
    then show ?thesis using nk ratio_loop_le_1[of c' n k]
      by (simp add: estimatePassAtK_def)
  next
    case c0: False
    show ?thesis
    proof (cases "c' \<ge> n")
      case True
      then show ?thesis using nk c0 assms ratio_loop_nonneg[of c n k]
        by (simp add: estimatePassAtK_def)
    next
      case False
      then show ?thesis using nk c0 assms ratio_loop_antimono[of c c' n k]
        by (simp add: estimatePassAtK_def)
    qed
  qed
qed

text \<open>
  C5, as the code has it.  The claim's law \<open>estimatePassAtK(n, n, k) = 1\<close> fails at
  \<open>n = 0\<close>: with no samples and no successes the function returns \<open>0\<close>, through the
  \<open>n < k\<close> branch when \<open>k > 0\<close> and through the \<open>c = 0\<close> test when \<open>k = 0\<close>.
\<close>

theorem estimatePassAtK_zero_samples_counterexample:
  "estimatePassAtK 0 0 1 \<noteq> 1"
  by (simp add: estimatePassAtK_def)

text \<open>
  C5 amended.  For all counts \<open>n\<close>, \<open>c\<close>, \<open>k\<close>: \<open>estimatePassAtK n 0 k = 0\<close>;
  \<open>estimatePassAtK n n k = 1\<close> when \<open>n > 0\<close>; when \<open>n < k\<close> the value is \<open>1\<close> if \<open>c > 0\<close> and
  \<open>0\<close> otherwise; the value is non-decreasing in \<open>c\<close>; and in the remaining case
  (\<open>k \<le> n\<close>, \<open>0 < c < n\<close>) it is one minus the product of \<open>(n - c - i) / (n - i)\<close> over
  \<open>i < k\<close>.
\<close>

theorem estimatePassAtK_laws:
  "estimatePassAtK n 0 k = 0 \<and>
   (0 < n \<longrightarrow> estimatePassAtK n n k = 1) \<and>
   (n < k \<longrightarrow> estimatePassAtK n c k = (if c > 0 then 1 else 0)) \<and>
   (c \<le> c' \<longrightarrow> estimatePassAtK n c k \<le> estimatePassAtK n c' k) \<and>
   (k \<le> n \<and> 0 < c \<and> c < n \<longrightarrow>
      estimatePassAtK n c k = 1 - (\<Prod>i<k. (of_nat n - of_nat c - of_nat i) / (of_nat n - of_nat i)))"
proof (intro conjI impI)
  show "estimatePassAtK n 0 k = 0" by (simp add: estimatePassAtK_def)
  show "estimatePassAtK n n k = 1" if "0 < n" using that by (simp add: estimatePassAtK_def)
  show "estimatePassAtK n c k = (if c > 0 then 1 else 0)" if "n < k"
    using that by (simp add: estimatePassAtK_def)
  show "estimatePassAtK n c k \<le> estimatePassAtK n c' k" if "c \<le> c'"
    using that by (rule estimatePassAtK_mono)
  show "estimatePassAtK n c k = 1 - (\<Prod>i<k. (of_nat n - of_nat c - of_nat i) / (of_nat n - of_nat i))"
    if "k \<le> n \<and> 0 < c \<and> c < n"
    using that by (simp add: estimatePassAtK_def ratio_loop_prod)
qed

theorem estimatePassAtK_laws_witness:
  "(0::nat) < 5 \<and> (2::nat) \<le> 3 \<and> (2::nat) < 3 \<and> (1::nat) \<le> 5 \<and> (0::nat) < 1 \<and> (1::nat) < 5 \<and>
   estimatePassAtK 5 0 3 = 0 \<and> estimatePassAtK 5 5 3 = 1 \<and>
   estimatePassAtK 2 1 3 = 1 \<and> estimatePassAtK 2 0 3 = 0 \<and>
   estimatePassAtK 5 2 3 \<le> estimatePassAtK 5 3 3 \<and>
   estimatePassAtK 5 1 1 = 1 / 5"
  using estimatePassAtK_laws[of 5 3 2 3] estimatePassAtK_laws[of 2 3 1 1]
    estimatePassAtK_laws[of 2 3 0 0] estimatePassAtK_laws[of 5 1 1 1]
  by simp

section \<open>Properties of the graders\<close>

text \<open>
  C8.  For every expected outcome, whatever its type and whether or not a field and a
  value are set, \<open>gradeResult\<close> returns false when the task result is null and when its
  success flag is false, whatever the extracted data holds.
\<close>

theorem gradeResult_requires_success:
  "gradeResult js None expected = Inr False \<and>
   (\<not> tr_success r \<longrightarrow> gradeResult js (Some r) expected = Inr False)"
  by (simp add: gradeResult_def)

text \<open>A failed run whose data would satisfy a \<open>contains\<close> outcome is graded false.\<close>

theorem gradeResult_requires_success_witness:
  "\<not> tr_success (exampleResult False) \<and>
   checkContains exampleBuiltins (tr_data (exampleResult False)) ''title'' (PString ''hello'') = Inr True \<and>
   gradeResult exampleBuiltins (Some (exampleResult False))
     \<lparr> eo_type = Contains, eo_field = Some ''title'', eo_value = Some (PString ''hello'') \<rparr> = Inr False"
proof -
  have data: "checkContains exampleBuiltins (tr_data (exampleResult False)) ''title'' (PString ''hello'') = Inr True"
    by code_simp
  have failed: "\<not> tr_success (exampleResult False)"
    by (simp add: exampleResult_def)
  show ?thesis
    using gradeResult_requires_success[of exampleBuiltins
        "\<lparr> eo_type = Contains, eo_field = Some ''title'', eo_value = Some (PString ''hello'') \<rparr>"
        "exampleResult False"] data failed
    by simp
qed















section \<open>Transitions of the graph\<close>

lemma step_finalize: "step hc ob (N_finalize, s, tr) = (N_END, finalizeNode s, tr)"
  by (simp add: step_def)

lemma step_success: "step hc ob (N_success, s, tr) = (N_router, successNode s, tr)"
  by (simp add: step_def)

lemma step_router: "step hc ob (N_router, s, tr) = (routerEdge (routerNode s), routerNode s, tr)"
  by (simp add: step_def)

lemma step_heal:
  "step hc ob (N_heal, s, tr) =
     (healEdge hc (fst (healNode hc ob s)), fst (healNode hc ob s), tr @ snd (healNode hc ob s))"
  by (simp add: step_def)

lemma step_plan:
  "step hc ob (N_plan, s, tr) =
     (case planNode ob s of None \<Rightarrow> (N_aborted, s, tr @ [PlannerCall])
      | Some s' \<Rightarrow> (N_router, s', tr @ [PlannerCall]))"
  by (simp add: step_def)

lemma run_snoc: "run hc t (obs @ [ob]) = step hc ob (run hc t obs)"
  by (simp add: run_def)

lemma actionEdge_target: "actionEdge s = N_heal \<or> actionEdge s = N_success"
  by (simp add: actionEdge_def)

lemma healEdge_target:
  "healEdge hc s = N_success \<or>
   (healingAttempts s < maxRetries hc \<and> (healEdge hc s = N_click \<or> healEdge hc s = N_fill))"
  by (auto simp: healEdge_def split: option.splits ActionType.splits)

lemma routerEdge_target:
  "routerEdge s \<in> {N_finalize, N_navigate, N_click, N_fill, N_extract, N_success}"
  by (auto simp: routerEdge_def split: option.splits ActionType.splits)

lemma routerEdge_complete: "isComplete s \<Longrightarrow> routerEdge s = N_finalize"
  by (simp add: routerEdge_def)

lemma routerEdge_pending: "routerEdge s \<noteq> N_plan"
  by (auto simp: routerEdge_def split: option.splits ActionType.splits)

lemma executor_frame:
  "navigateNode ob s = Some (s', es) \<Longrightarrow>
     actions s' = actions s \<and> totalSteps s' = totalSteps s \<and> isComplete s' = isComplete s"
  "clickNode ob s = Some (s', es) \<Longrightarrow>
     actions s' = actions s \<and> totalSteps s' = totalSteps s \<and> isComplete s' = isComplete s"
  "fillNode ob s = Some (s', es) \<Longrightarrow>
     actions s' = actions s \<and> totalSteps s' = totalSteps s \<and> isComplete s' = isComplete s"
  "extractNode ob s = Some (s', es) \<Longrightarrow>
     actions s' = actions s \<and> totalSteps s' = totalSteps s \<and> isComplete s' = isComplete s"
  by (auto simp: navigateNode_def clickNode_def fillNode_def extractNode_def Let_def
      split: if_splits option.splits)

lemma heal_frame:
  "actions (fst (healNode hc ob s)) = actions s \<and> totalSteps (fst (healNode hc ob s)) = totalSteps s \<and>
   isComplete (fst (healNode hc ob s)) = isComplete s"
  by (simp add: healNode_def healThrew_def healRepaired_def Let_def)

lemma afterExecutor_shape:
  assumes "shapeInv (n, s, tr)" "n \<noteq> N_plan" "\<not> isComplete s"
    and "\<And>s' es. r = Some (s', es) \<Longrightarrow>
           actions s' = actions s \<and> totalSteps s' = totalSteps s \<and> isComplete s' = isComplete s"
  shows "shapeInv (afterExecutor (n, s, tr) r)"
proof (cases r)
  case None
  then show ?thesis using assms(1,3)
    by (simp add: afterExecutor_def shapeInv_def node_of_def state_of_def)
next
  case (Some p)
  obtain s' es where p: "p = (s', es)" by (cases p)
  from assms(4)[of s' es] Some p
  have "actions s' = actions s \<and> totalSteps s' = totalSteps s \<and> isComplete s' = isComplete s" by simp
  then show ?thesis using Some p assms(1,3) actionEdge_target[of s']
    by (auto simp: afterExecutor_def shapeInv_def node_of_def state_of_def)
qed

lemma shape_step:
  assumes "shapeInv c"
  shows "shapeInv (step hc ob c)"
proof -
  obtain n s tr where c: "c = (n, s, tr)" by (cases c)
  have tot: "totalSteps s = length (actions s)" using assms c by (simp add: shapeInv_def state_of_def)
  have fin: "isComplete s \<Longrightarrow> n \<in> {N_finalize, N_END}"
    using assms c by (simp add: shapeInv_def state_of_def node_of_def)
  show ?thesis
  proof (cases n)
    case N_plan
    then show ?thesis using assms c
      by (auto simp: step_plan shapeInv_def node_of_def state_of_def planNode_def appendReducer_def
          split: option.splits)
  next
    case N_router
    have "totalSteps (routerNode s) = length (actions (routerNode s))"
      using tot by (simp add: routerNode_def)
    moreover have "isComplete (routerNode s) \<Longrightarrow> routerEdge (routerNode s) = N_finalize"
      by (rule routerEdge_complete)
    ultimately show ?thesis using c N_router routerEdge_pending[of "routerNode s"]
      by (auto simp: step_router shapeInv_def node_of_def state_of_def)
  next
    case N_navigate
    then have "step hc ob c = afterExecutor (n, s, tr) (navigateNode ob s)" using c by (simp add: step_def)
    moreover have "\<not> isComplete s" using fin N_navigate by auto
    ultimately show ?thesis
      using afterExecutor_shape[of n s tr "navigateNode ob s"] executor_frame(1)[of ob s] assms c N_navigate
      by fastforce
  next
    case N_click
    then have "step hc ob c = afterExecutor (n, s, tr) (clickNode ob s)" using c by (simp add: step_def)
    moreover have "\<not> isComplete s" using fin N_click by auto
    ultimately show ?thesis
      using afterExecutor_shape[of n s tr "clickNode ob s"] executor_frame(2)[of ob s] assms c N_click
      by fastforce
  next
    case N_fill
    then have "step hc ob c = afterExecutor (n, s, tr) (fillNode ob s)" using c by (simp add: step_def)
    moreover have "\<not> isComplete s" using fin N_fill by auto
    ultimately show ?thesis
      using afterExecutor_shape[of n s tr "fillNode ob s"] executor_frame(3)[of ob s] assms c N_fill
      by fastforce
  next
    case N_extract
    then have "step hc ob c = afterExecutor (n, s, tr) (extractNode ob s)" using c by (simp add: step_def)
    moreover have "\<not> isComplete s" using fin N_extract by auto
    ultimately show ?thesis
      using afterExecutor_shape[of n s tr "extractNode ob s"] executor_frame(4)[of ob s] assms c N_extract
      by fastforce
  next
    case N_heal
    have "\<not> isComplete s" using fin N_heal by auto
    then show ?thesis using c N_heal tot heal_frame[of hc ob s] healEdge_target[of hc "fst (healNode hc ob s)"]
      by (auto simp: step_heal shapeInv_def node_of_def state_of_def)
  next
    case N_success
    have "\<not> isComplete s" using fin N_success by auto
    then show ?thesis using c N_success tot
      by (simp add: step_success shapeInv_def node_of_def state_of_def successNode_def)
  next
    case N_finalize
    then show ?thesis using c tot
      by (simp add: step_finalize shapeInv_def node_of_def state_of_def finalizeNode_def Let_def)
  next
    case N_END
    then show ?thesis using c assms by (simp add: step_def)
  next
    case N_aborted
    then show ?thesis using c assms by (simp add: step_def)
  qed
qed

lemma shape_run: "shapeInv (run hc t obs)"
proof -
  have "shapeInv (fold (step hc) obs c)" if "shapeInv c" for c
    using that by (induction obs arbitrary: c) (simp_all add: shape_step)
  moreover have "shapeInv (N_plan, initialState t, [])"
    by (simp add: shapeInv_def node_of_def state_of_def initialState_def)
  ultimately show ?thesis by (simp add: run_def)
qed

section \<open>Finalize\<close>

text \<open>
  C1.  The finalize transition ends the run with a task result whose success flag is true
  exactly when the cursor reached \<open>totalSteps\<close>, or the last recorded step result succeeded
  and the extracted data is not empty.  In particular a cursor equal to \<open>totalSteps\<close> with
  no extracted data gives success, and a cursor below \<open>totalSteps\<close> with no data and a
  failed last step gives failure.
\<close>

theorem finalize_success_rule:
  "node_of (step hc ob (N_finalize, s, tr)) = N_END \<and>
   finalResult (state_of (step hc ob (N_finalize, s, tr))) \<noteq> None \<and>
   tr_success (the (finalResult (state_of (step hc ob (N_finalize, s, tr))))) =
     (currentStep s \<ge> totalSteps s \<or>
      ((results s \<noteq> [] \<and> sr_success (last (results s))) \<and> extractedData s \<noteq> [])) \<and>
   (currentStep s = totalSteps s \<and> extractedData s = [] \<longrightarrow>
      tr_success (the (finalResult (state_of (step hc ob (N_finalize, s, tr)))))) \<and>
   (currentStep s < totalSteps s \<and> extractedData s = [] \<and> results s \<noteq> [] \<and>
    \<not> sr_success (last (results s)) \<longrightarrow>
      \<not> tr_success (the (finalResult (state_of (step hc ob (N_finalize, s, tr))))))"
  by (auto simp: step_finalize node_of_def state_of_def finalizeNode_def lastStepSucceeded_def Let_def)

theorem finalize_success_rule_witness:
  "currentStep finishedState = totalSteps finishedState \<and> extractedData finishedState = [] \<and>
   tr_success (the (finalResult (state_of (step (exampleConfig 3) quiet (N_finalize, finishedState, []))))) \<and>
   currentStep partialWithData < totalSteps partialWithData \<and>
   sr_success (last (results partialWithData)) \<and> extractedData partialWithData \<noteq> [] \<and>
   tr_success (the (finalResult (state_of (step (exampleConfig 3) quiet (N_finalize, partialWithData, []))))) \<and>
   currentStep partialFailed < totalSteps partialFailed \<and> extractedData partialFailed = [] \<and>
   results partialFailed \<noteq> [] \<and> \<not> sr_success (last (results partialFailed)) \<and>
   \<not> tr_success (the (finalResult (state_of (step (exampleConfig 3) quiet (N_finalize, partialFailed, [])))))"
  using finalize_success_rule[of "exampleConfig 3" quiet finishedState "[]"]
    finalize_success_rule[of "exampleConfig 3" quiet partialWithData "[]"]
    finalize_success_rule[of "exampleConfig 3" quiet partialFailed "[]"]
  by (simp add: finishedState_def partialWithData_def partialFailed_def initialState_def exampleStep_def)

text \<open>
  C10.  When the planner returns no action, three transitions (plan, router, finalize) end
  the run: success is true, there are no steps, no extracted data, no healing attempts,
  no screenshots, and the duration is \<open>0\<close>.  The planner call is the only collaborator
  call made.
\<close>

theorem empty_plan_finalizes:
  "o_plan ob1 = Some [] \<longrightarrow>
     run hc t [ob1, ob2, ob3] =
       (N_END,
        (initialState t)\<lparr> isComplete := True,
           finalResult := Some \<lparr> tr_success = True, tr_data = Some [], tr_steps = [],
             tr_healingAttempts = [], tr_duration = 0, tr_screenshots = [] \<rparr> \<rparr>,
        [PlannerCall])"
  by (simp add: run_def step_plan step_router step_finalize planNode_def routerNode_def routerEdge_def
      finalizeNode_def initialState_def appendReducer_def lastStepSucceeded_def)

theorem empty_plan_finalizes_witness:
  "o_plan (planning []) = Some [] \<and>
   node_of (run (exampleConfig 3) ''do nothing'' [planning [], quiet, quiet]) = N_END \<and>
   finalResult (state_of (run (exampleConfig 3) ''do nothing'' [planning [], quiet, quiet])) =
     Some \<lparr> tr_success = True, tr_data = Some [], tr_steps = [],
             tr_healingAttempts = [], tr_duration = 0, tr_screenshots = [] \<rparr>"
  using empty_plan_finalizes[of "planning []" "exampleConfig 3" "''do nothing''" quiet quiet]
  by (simp add: planning_def node_of_def state_of_def)

section \<open>Routing\<close>

text \<open>
  C9.  In every run, a pending action of type \<open>wait\<close> or \<open>screenshot\<close>, like one of an
  unrecognized type, is never executed: the router sends it to the success node, and after
  the success node the cursor is one further, the healing counter is \<open>0\<close>, and the step
  results, the healing history, the extracted data and the log of collaborator calls are
  what they were.  The transition is the same for the three kinds of type.
\<close>

theorem unexecuted_action_types:
  "node_of (run hc t obs) = N_router \<and>
   currentStep (state_of (run hc t obs)) < totalSteps (state_of (run hc t obs)) \<and>
   (a_type (actions (state_of (run hc t obs)) ! currentStep (state_of (run hc t obs))) \<in> {Wait, Screenshot} \<or>
    (\<exists>x. a_type (actions (state_of (run hc t obs)) ! currentStep (state_of (run hc t obs))) = Unrecognized x)) \<longrightarrow>
     run hc t (obs @ [ob1]) =
       (N_success,
        (state_of (run hc t obs))\<lparr>
           currentAction := Some (actions (state_of (run hc t obs)) ! currentStep (state_of (run hc t obs))),
           needsHealing := False \<rparr>,
        effects_of (run hc t obs)) \<and>
     run hc t (obs @ [ob1, ob2]) =
       (N_router,
        (state_of (run hc t obs))\<lparr>
           currentAction := Some (actions (state_of (run hc t obs)) ! currentStep (state_of (run hc t obs))),
           needsHealing := False,
           currentStep := currentStep (state_of (run hc t obs)) + 1, healingAttempts := 0 \<rparr>,
        effects_of (run hc t obs))"
proof (intro impI)
  let ?s = "state_of (run hc t obs)"
  assume a: "node_of (run hc t obs) = N_router \<and> currentStep ?s < totalSteps ?s \<and>
   (a_type (actions ?s ! currentStep ?s) \<in> {Wait, Screenshot} \<or>
    (\<exists>x. a_type (actions ?s ! currentStep ?s) = Unrecognized x))"
  have c: "run hc t obs = (N_router, ?s, effects_of (run hc t obs))"
    using a by (simp add: node_of_def state_of_def effects_of_def prod_eq_iff)
  have sh: "totalSteps ?s = length (actions ?s)" "\<not> isComplete ?s"
    using shape_run[of hc t obs] a by (auto simp: shapeInv_def)
  have s1: "step hc ob1 (N_router, ?s, effects_of (run hc t obs)) =
      (N_success, ?s\<lparr> currentAction := Some (actions ?s ! currentStep ?s), needsHealing := False \<rparr>,
       effects_of (run hc t obs))"
    using a sh by (auto simp: step_router routerNode_def routerEdge_def)
  have r1: "run hc t (obs @ [ob1]) = step hc ob1 (N_router, ?s, effects_of (run hc t obs))"
    using run_snoc[of hc t obs ob1] c by simp
  have r2: "run hc t (obs @ [ob1, ob2]) = step hc ob2 (run hc t (obs @ [ob1]))"
    using run_snoc[of hc t "obs @ [ob1]" ob2] by simp
  show "run hc t (obs @ [ob1]) =
       (N_success, ?s\<lparr> currentAction := Some (actions ?s ! currentStep ?s), needsHealing := False \<rparr>,
        effects_of (run hc t obs)) \<and>
     run hc t (obs @ [ob1, ob2]) =
       (N_router,
        ?s\<lparr> currentAction := Some (actions ?s ! currentStep ?s), needsHealing := False,
           currentStep := currentStep ?s + 1, healingAttempts := 0 \<rparr>,
        effects_of (run hc t obs))"
    by (simp add: r2 r1 s1 step_success successNode_def)
qed

theorem unexecuted_action_types_witness:
  "node_of (run (exampleConfig 3) ''t'' waitRun) = N_router \<and>
   currentStep (state_of (run (exampleConfig 3) ''t'' waitRun)) <
     totalSteps (state_of (run (exampleConfig 3) ''t'' waitRun)) \<and>
   a_type (actions (state_of (run (exampleConfig 3) ''t'' waitRun)) !
           currentStep (state_of (run (exampleConfig 3) ''t'' waitRun))) = Wait \<and>
   node_of (run (exampleConfig 3) ''t'' (waitRun @ [quiet])) = N_success \<and>
   node_of (run (exampleConfig 3) ''t'' (waitRun @ [quiet, quiet])) = N_router \<and>
   currentStep (state_of (run (exampleConfig 3) ''t'' (waitRun @ [quiet, quiet]))) = 1 \<and>
   results (state_of (run (exampleConfig 3) ''t'' (waitRun @ [quiet, quiet]))) = [] \<and>
   effects_of (run (exampleConfig 3) ''t'' (waitRun @ [quiet, quiet])) = [PlannerCall]"
proof -
  let ?s = "state_of (run (exampleConfig 3) ''t'' waitRun)"
  have n: "node_of (run (exampleConfig 3) ''t'' waitRun) = N_router" by code_simp
  have h: "currentStep ?s < totalSteps ?s" "a_type (actions ?s ! currentStep ?s) = Wait"
    "currentStep ?s = 0" "results ?s = []" "effects_of (run (exampleConfig 3) ''t'' waitRun) = [PlannerCall]"
    by code_simp+
  show ?thesis
    using unexecuted_action_types[of "exampleConfig 3" "''t''" waitRun quiet quiet] n h
    by (simp add: node_of_def state_of_def effects_of_def)
qed

section \<open>The healing counter\<close>

lemma navigate_counter:
  "navigateNode ob s = Some (s', es) \<Longrightarrow> healingAttempts s' = healingAttempts s"
  by (auto simp: navigateNode_def Let_def split: if_splits option.splits)

lemma click_counter:
  "clickNode ob s = Some (s', es) \<Longrightarrow> healingAttempts s' \<le> healingAttempts s + 1"
  by (auto simp: clickNode_def Let_def split: if_splits option.splits)

lemma fill_counter:
  "fillNode ob s = Some (s', es) \<Longrightarrow> healingAttempts s' \<le> healingAttempts s + 1"
  by (auto simp: fillNode_def Let_def split: if_splits option.splits)

lemma extract_counter:
  "extractNode ob s = Some (s', es) \<Longrightarrow> healingAttempts s' = healingAttempts s"
  by (auto simp: extractNode_def Let_def split: if_splits option.splits)

lemma heal_counter:
  "healingAttempts s \<le> maxRetries hc \<Longrightarrow> healingAttempts (fst (healNode hc ob s)) \<le> maxRetries hc"
  by (auto simp: healNode_def healThrew_def healRepaired_def Let_def)

lemma afterExecutor_inv:
  assumes "healingAttempts s < maxRetries hc"
    and "\<And>s' es. r = Some (s', es) \<Longrightarrow> healingAttempts s' \<le> healingAttempts s + 1"
  shows "counterInv hc (afterExecutor (n, s, tr) r)"
proof (cases r)
  case None
  then show ?thesis using assms(1)
    by (simp add: afterExecutor_def counterInv_def node_of_def state_of_def)
next
  case (Some p)
  obtain s' es where p: "p = (s', es)" by (cases p)
  have "healingAttempts s' \<le> maxRetries hc" using assms Some p by fastforce
  then show ?thesis using Some p actionEdge_target[of s']
    by (auto simp: afterExecutor_def counterInv_def node_of_def state_of_def)
qed

lemma inv_step:
  assumes "1 \<le> maxRetries hc" "counterInv hc c"
  shows "counterInv hc (step hc ob c)"
proof -
  obtain n s tr where c: "c = (n, s, tr)" by (cases c)
  show ?thesis
  proof (cases n)
    case N_plan
    then show ?thesis using assms c
      by (auto simp: step_plan counterInv_def node_of_def state_of_def planNode_def split: option.splits)
  next
    case N_router
    have "healingAttempts (routerNode s) = healingAttempts s" by (simp add: routerNode_def)
    then show ?thesis using assms c N_router routerEdge_target[of "routerNode s"]
      by (auto simp: step_router counterInv_def node_of_def state_of_def)
  next
    case N_navigate
    then have "step hc ob c = afterExecutor (n, s, tr) (navigateNode ob s)" using c by (simp add: step_def)
    moreover have "healingAttempts s < maxRetries hc" using assms(2) c N_navigate
      by (simp add: counterInv_def node_of_def state_of_def)
    ultimately show ?thesis using afterExecutor_inv[of s hc "navigateNode ob s" n tr] navigate_counter[of ob s]
      by fastforce
  next
    case N_click
    then have "step hc ob c = afterExecutor (n, s, tr) (clickNode ob s)" using c by (simp add: step_def)
    moreover have "healingAttempts s < maxRetries hc" using assms(2) c N_click
      by (simp add: counterInv_def node_of_def state_of_def)
    ultimately show ?thesis using afterExecutor_inv[of s hc "clickNode ob s" n tr] click_counter[of ob s]
      by fastforce
  next
    case N_fill
    then have "step hc ob c = afterExecutor (n, s, tr) (fillNode ob s)" using c by (simp add: step_def)
    moreover have "healingAttempts s < maxRetries hc" using assms(2) c N_fill
      by (simp add: counterInv_def node_of_def state_of_def)
    ultimately show ?thesis using afterExecutor_inv[of s hc "fillNode ob s" n tr] fill_counter[of ob s]
      by fastforce
  next
    case N_extract
    then have "step hc ob c = afterExecutor (n, s, tr) (extractNode ob s)" using c by (simp add: step_def)
    moreover have "healingAttempts s < maxRetries hc" using assms(2) c N_extract
      by (simp add: counterInv_def node_of_def state_of_def)
    ultimately show ?thesis using afterExecutor_inv[of s hc "extractNode ob s" n tr] extract_counter[of ob s]
      by fastforce
  next
    case N_heal
    have "healingAttempts s \<le> maxRetries hc" using assms(2) c by (simp add: counterInv_def state_of_def)
    then have "healingAttempts (fst (healNode hc ob s)) \<le> maxRetries hc" by (rule heal_counter)
    then show ?thesis using c N_heal healEdge_target[of hc "fst (healNode hc ob s)"]
      by (auto simp: step_def counterInv_def node_of_def state_of_def)
  next
    case N_success
    then show ?thesis using c by (simp add: step_success counterInv_def node_of_def state_of_def successNode_def)
  next
    case N_finalize
    then show ?thesis using c assms(2)
      by (simp add: step_finalize counterInv_def node_of_def state_of_def finalizeNode_def Let_def)
  next
    case N_END
    then show ?thesis using c assms(2) by (simp add: step_def)
  next
    case N_aborted
    then show ?thesis using c assms(2) by (simp add: step_def)
  qed
qed

lemma inv_steps: "1 \<le> maxRetries hc \<Longrightarrow> counterInv hc c \<Longrightarrow> counterInv hc (steps hc obs c)"
  unfolding steps_def by (induction obs arbitrary: c) (simp_all add: inv_step)

lemma inv_run: "1 \<le> maxRetries hc \<Longrightarrow> counterInv hc (run hc t obs)"
proof -
  assume m: "1 \<le> maxRetries hc"
  have "counterInv hc (N_plan, initialState t, [])"
    by (simp add: counterInv_def node_of_def state_of_def initialState_def)
  from inv_steps[OF m this, of obs] show ?thesis by (simp add: run_def steps_def)
qed

text \<open>
  C2.  With a retry ceiling of at least \<open>1\<close>, in every configuration a run reaches the healing
  counter is at most \<open>maxRetries\<close>.  When the machine is at the heal node with the counter
  at the ceiling, the heal node reports exhaustion without calling any collaborator (no
  backoff, no vision, scroll or wait strategy), the machine goes to the success node and
  from there to the router with the cursor advanced and the counter reset.  A failing
  click or fill executor and a heal invocation that asks for a retry each add one to the
  counter.
\<close>

theorem healing_counter_bounded:
  "1 \<le> maxRetries hc \<longrightarrow>
     healingAttempts (state_of (run hc t obs)) \<le> maxRetries hc \<and>
     (node_of (run hc t obs) = N_heal \<and> healingAttempts (state_of (run hc t obs)) \<ge> maxRetries hc \<longrightarrow>
        node_of (run hc t (obs @ [ob])) = N_success \<and>
        effects_of (run hc t (obs @ [ob])) = effects_of (run hc t obs) \<and>
        healingExhausted (state_of (run hc t (obs @ [ob]))) \<and>
        \<not> needsHealing (state_of (run hc t (obs @ [ob]))) \<and>
        strategy (last (healingHistory (state_of (run hc t (obs @ [ob]))))) = ''exhausted'' \<and>
        node_of (run hc t (obs @ [ob, ob'])) = N_router \<and>
        effects_of (run hc t (obs @ [ob, ob'])) = effects_of (run hc t obs) \<and>
        currentStep (state_of (run hc t (obs @ [ob, ob']))) = currentStep (state_of (run hc t obs)) + 1 \<and>
        healingAttempts (state_of (run hc t (obs @ [ob, ob']))) = 0) \<and>
     (node_of (run hc t obs) \<in> {N_click, N_fill} \<and> node_of (run hc t (obs @ [ob])) = N_heal \<longrightarrow>
        healingAttempts (state_of (run hc t (obs @ [ob]))) = healingAttempts (state_of (run hc t obs)) + 1) \<and>
     (node_of (run hc t obs) = N_heal \<and> needsHealing (state_of (run hc t (obs @ [ob]))) \<longrightarrow>
        healingAttempts (state_of (run hc t (obs @ [ob]))) = healingAttempts (state_of (run hc t obs)) + 1)"
proof (intro impI conjI)
  assume m: "1 \<le> maxRetries hc"
  obtain n s tr where c: "run hc t obs = (n, s, tr)" by (cases "run hc t obs")
  show "healingAttempts (state_of (run hc t obs)) \<le> maxRetries hc"
    using inv_run[OF m, of t obs] by (simp add: counterInv_def)
  {
    assume "node_of (run hc t obs) = N_heal \<and> healingAttempts (state_of (run hc t obs)) \<ge> maxRetries hc"
    then have h: "n = N_heal" "healingAttempts s \<ge> maxRetries hc"
      using c by (simp_all add: node_of_def state_of_def)
    have s1: "run hc t (obs @ [ob]) =
        (N_success,
         s\<lparr> needsHealing := False, healingExhausted := True,
            healingHistory := healingHistory s @
              [\<lparr> attemptNumber = healingAttempts s, originalError = originalErrorOf s,
                 strategy = ''exhausted'', elementFound = False, newSelector = None,
                 ha_screenshot = screenshot s, timestamp = o_now ob \<rparr>] \<rparr>, tr)"
      using c h by (simp add: run_snoc step_heal healNode_def healEdge_def appendReducer_def)
    have s2: "run hc t (obs @ [ob, ob']) = step hc ob' (run hc t (obs @ [ob]))"
      using run_snoc[of hc t "obs @ [ob]" ob'] by simp
    show "node_of (run hc t (obs @ [ob])) = N_success"
      by (simp add: s1 node_of_def)
    show "effects_of (run hc t (obs @ [ob])) = effects_of (run hc t obs)"
      by (simp add: s1 c effects_of_def)
    show "healingExhausted (state_of (run hc t (obs @ [ob])))"
      by (simp add: s1 state_of_def)
    show "\<not> needsHealing (state_of (run hc t (obs @ [ob])))"
      by (simp add: s1 state_of_def)
    show "strategy (last (healingHistory (state_of (run hc t (obs @ [ob]))))) = ''exhausted''"
      by (simp add: s1 state_of_def)
    show "node_of (run hc t (obs @ [ob, ob'])) = N_router"
      by (simp add: s2 s1 step_success node_of_def)
    show "effects_of (run hc t (obs @ [ob, ob'])) = effects_of (run hc t obs)"
      by (simp add: s2 s1 c step_success effects_of_def)
    show "currentStep (state_of (run hc t (obs @ [ob, ob']))) = currentStep (state_of (run hc t obs)) + 1"
      by (simp add: s2 s1 c step_success state_of_def successNode_def)
    show "healingAttempts (state_of (run hc t (obs @ [ob, ob']))) = 0"
      by (simp add: s2 s1 step_success state_of_def successNode_def)
  }
  {
    assume a: "node_of (run hc t obs) \<in> {N_click, N_fill} \<and> node_of (run hc t (obs @ [ob])) = N_heal"
    then show "healingAttempts (state_of (run hc t (obs @ [ob]))) = healingAttempts (state_of (run hc t obs)) + 1"
      using c
      by (auto simp: run_snoc step_def afterExecutor_def actionEdge_def node_of_def state_of_def
          clickNode_def fillNode_def Let_def split: option.splits if_splits)
  }
  {
    assume a: "node_of (run hc t obs) = N_heal \<and> needsHealing (state_of (run hc t (obs @ [ob])))"
    then show "healingAttempts (state_of (run hc t (obs @ [ob]))) = healingAttempts (state_of (run hc t obs)) + 1"
      using c
      by (auto simp: run_snoc step_heal node_of_def state_of_def healNode_def healThrew_def
          healRepaired_def Let_def split: if_splits)
  }
qed

theorem healing_counter_bounded_witness:
  "1 \<le> maxRetries (exampleConfig 1) \<and>
   node_of (run (exampleConfig 1) ''t'' clickRun) = N_heal \<and>
   healingAttempts (state_of (run (exampleConfig 1) ''t'' clickRun)) = 1 \<and>
   node_of (run (exampleConfig 1) ''t'' (clickRun @ [quiet])) = N_success \<and>
   effects_of (run (exampleConfig 1) ''t'' (clickRun @ [quiet])) = effects_of (run (exampleConfig 1) ''t'' clickRun) \<and>
   strategy (last (healingHistory (state_of (run (exampleConfig 1) ''t'' (clickRun @ [quiet]))))) = ''exhausted'' \<and>
   node_of (run (exampleConfig 1) ''t'' (clickRun @ [quiet, quiet])) = N_router \<and>
   currentStep (state_of (run (exampleConfig 1) ''t'' (clickRun @ [quiet, quiet]))) =
     currentStep (state_of (run (exampleConfig 1) ''t'' clickRun)) + 1"
proof -
  have m: "1 \<le> maxRetries (exampleConfig 1)" by (simp add: exampleConfig_def)
  have n: "node_of (run (exampleConfig 1) ''t'' clickRun) = N_heal" by code_simp
  have h: "healingAttempts (state_of (run (exampleConfig 1) ''t'' clickRun)) = 1" by code_simp
  have ge: "healingAttempts (state_of (run (exampleConfig 1) ''t'' clickRun)) \<ge> maxRetries (exampleConfig 1)"
    using h by (simp add: exampleConfig_def)
  show ?thesis
    using healing_counter_bounded[of "exampleConfig 1" "''t''" clickRun quiet quiet] m n h ge
    by simp
qed

section \<open>Re-dispatch after healing\<close>

text \<open>
  C3, as the code has it.  With three retries configured, a navigate action fails, the heal
  node repairs it (the counter is \<open>1\<close>) and the heal edge goes to the success node, not back
  to navigate; the same for a failed extract action after an unsuccessful healing attempt.
  With two retries configured, a click fails, the heal node repairs it, and the heal edge
  goes to the success node because the counter has reached the ceiling.
\<close>

theorem heal_redispatch_counterexample:
  "node_of (run (exampleConfig 3) ''t'' navigateRun) = N_heal \<and>
   healingAttempts (state_of (run (exampleConfig 3) ''t'' (navigateRun @ [detecting ''#main'']))) = 1 \<and>
   currentAction (state_of (run (exampleConfig 3) ''t'' (navigateRun @ [detecting ''#main'']))) =
     Some (mkAction Navigate (Some ''#main'')) \<and>
   node_of (run (exampleConfig 3) ''t'' (navigateRun @ [detecting ''#main''])) = N_success \<and>
   node_of (run (exampleConfig 3) ''t'' extractRun) = N_heal \<and>
   healingAttempts (state_of (run (exampleConfig 3) ''t'' (extractRun @ [quiet]))) = 1 \<and>
   needsHealing (state_of (run (exampleConfig 3) ''t'' (extractRun @ [quiet]))) \<and>
   node_of (run (exampleConfig 3) ''t'' (extractRun @ [quiet])) = N_success \<and>
   node_of (run (exampleConfig 2) ''t'' clickRun) = N_heal \<and>
   currentAction (state_of (run (exampleConfig 2) ''t'' (clickRun @ [detecting ''#login'']))) =
     Some (mkAction Click (Some ''#login'')) \<and>
   node_of (run (exampleConfig 2) ''t'' (clickRun @ [detecting ''#login''])) = N_success"
  by code_simp

text \<open>
  C3 amended.  For a click or fill action with a target, when the counter after the heal
  node's increment is still below \<open>maxRetries\<close>, the heal node asks for a retry and the
  machine re-dispatches to the state of the same action type (click to click, fill to
  fill).  The current action is then the failed one, either unchanged or with its
  target replaced by the selector of an accepted detection.
\<close>

theorem heal_redispatches_click_and_fill:
  "currentAction s = Some a \<and> a_type a \<in> {Click, Fill} \<and> truthy (a_target a) \<and>
   healingAttempts s + 1 < maxRetries hc \<longrightarrow>
     node_of (step hc ob (N_heal, s, tr)) = (if a_type a = Click then N_click else N_fill) \<and>
     executorType (node_of (step hc ob (N_heal, s, tr))) = Some (a_type a) \<and>
     needsHealing (state_of (step hc ob (N_heal, s, tr))) \<and>
     healingAttempts (state_of (step hc ob (N_heal, s, tr))) = healingAttempts s + 1 \<and>
     (currentAction (state_of (step hc ob (N_heal, s, tr))) = Some a \<or>
      (\<exists>e. Some e \<in> {o_detected ob, o_scrollDetected ob, o_waitDetected ob} \<and> accepted (Some e) \<and>
           currentAction (state_of (step hc ob (N_heal, s, tr))) = Some (a\<lparr> a_target := Some (selector e) \<rparr>)))"
proof (intro impI)
  assume a: "currentAction s = Some a \<and> a_type a \<in> {Click, Fill} \<and> truthy (a_target a) \<and>
   healingAttempts s + 1 < maxRetries hc"
  let ?s' = "fst (healNode hc ob s)"
  have st: "state_of (step hc ob (N_heal, s, tr)) = ?s'" "node_of (step hc ob (N_heal, s, tr)) = healEdge hc ?s'"
    by (simp_all add: step_heal state_of_def node_of_def)
  have cnt: "healingAttempts ?s' = healingAttempts s + 1" and nh: "needsHealing ?s'"
    using a by (auto simp: healNode_def healThrew_def healRepaired_def Let_def)
  have act: "currentAction ?s' = Some a \<or>
      (\<exists>e. Some e \<in> {o_detected ob, o_scrollDetected ob, o_waitDetected ob} \<and> accepted (Some e) \<and>
           currentAction ?s' = Some (a\<lparr> a_target := Some (selector e) \<rparr>))"
  proof -
    have t: "\<And>d. accepted d \<Longrightarrow> d = Some (the d)" by (auto simp: accepted_def split: option.splits)
    have "currentAction ?s' = Some a \<or>
        (accepted (o_detected ob) \<and>
           currentAction ?s' = Some (a\<lparr> a_target := Some (selector (the (o_detected ob))) \<rparr>)) \<or>
        (accepted (o_scrollDetected ob) \<and>
           currentAction ?s' = Some (a\<lparr> a_target := Some (selector (the (o_scrollDetected ob))) \<rparr>)) \<or>
        (accepted (o_waitDetected ob) \<and>
           currentAction ?s' = Some (a\<lparr> a_target := Some (selector (the (o_waitDetected ob))) \<rparr>))"
      using a by (simp add: healNode_def healThrew_def healRepaired_def Let_def)
    then consider "currentAction ?s' = Some a"
      | "accepted (o_detected ob)"
        "currentAction ?s' = Some (a\<lparr> a_target := Some (selector (the (o_detected ob))) \<rparr>)"
      | "accepted (o_scrollDetected ob)"
        "currentAction ?s' = Some (a\<lparr> a_target := Some (selector (the (o_scrollDetected ob))) \<rparr>)"
      | "accepted (o_waitDetected ob)"
        "currentAction ?s' = Some (a\<lparr> a_target := Some (selector (the (o_waitDetected ob))) \<rparr>)"
      by blast
    then show ?thesis
    proof cases
      case 1
      then show ?thesis by simp
    next
      case 2
      from t[OF 2(1)] have "Some (the (o_detected ob)) \<in> {o_detected ob, o_scrollDetected ob, o_waitDetected ob}"
        by simp
      moreover have "accepted (Some (the (o_detected ob)))" using 2(1) t by metis
      ultimately show ?thesis using 2(2) by blast
    next
      case 3
      from t[OF 3(1)] have "Some (the (o_scrollDetected ob)) \<in> {o_detected ob, o_scrollDetected ob, o_waitDetected ob}"
        by simp
      moreover have "accepted (Some (the (o_scrollDetected ob)))" using 3(1) t by metis
      ultimately show ?thesis using 3(2) by blast
    next
      case 4
      from t[OF 4(1)] have "Some (the (o_waitDetected ob)) \<in> {o_detected ob, o_scrollDetected ob, o_waitDetected ob}"
        by simp
      moreover have "accepted (Some (the (o_waitDetected ob)))" using 4(1) t by metis
      ultimately show ?thesis using 4(2) by blast
    qed
  qed
  then have ty: "\<exists>b. currentAction ?s' = Some b \<and> a_type b = a_type a" by auto
  have edge: "healEdge hc ?s' = (if a_type a = Click then N_click else N_fill)"
    using a cnt nh ty by (auto simp: healEdge_def)
  show "node_of (step hc ob (N_heal, s, tr)) = (if a_type a = Click then N_click else N_fill) \<and>
     executorType (node_of (step hc ob (N_heal, s, tr))) = Some (a_type a) \<and>
     needsHealing (state_of (step hc ob (N_heal, s, tr))) \<and>
     healingAttempts (state_of (step hc ob (N_heal, s, tr))) = healingAttempts s + 1 \<and>
     (currentAction (state_of (step hc ob (N_heal, s, tr))) = Some a \<or>
      (\<exists>e. Some e \<in> {o_detected ob, o_scrollDetected ob, o_waitDetected ob} \<and> accepted (Some e) \<and>
           currentAction (state_of (step hc ob (N_heal, s, tr))) = Some (a\<lparr> a_target := Some (selector e) \<rparr>)))"
    using a st cnt nh act edge by auto
qed

theorem heal_redispatches_click_and_fill_witness:
  "currentAction (state_of (run (exampleConfig 3) ''t'' clickRun)) = Some (mkAction Click (Some ''Login'')) \<and>
   a_type (mkAction Click (Some ''Login'')) \<in> {Click, Fill} \<and>
   truthy (a_target (mkAction Click (Some ''Login''))) \<and>
   healingAttempts (state_of (run (exampleConfig 3) ''t'' clickRun)) + 1 < maxRetries (exampleConfig 3) \<and>
   node_of (step (exampleConfig 3) (detecting ''#login'')
      (N_heal, state_of (run (exampleConfig 3) ''t'' clickRun), [])) = N_click \<and>
   currentAction (state_of (step (exampleConfig 3) (detecting ''#login'')
      (N_heal, state_of (run (exampleConfig 3) ''t'' clickRun), []))) = Some (mkAction Click (Some ''#login''))"
proof -
  let ?s = "state_of (run (exampleConfig 3) ''t'' clickRun)"
  let ?a = "mkAction Click (Some ''Login'')"
  have a: "currentAction ?s = Some ?a" by code_simp
  have t: "a_type ?a \<in> {Click, Fill}" "truthy (a_target ?a)" by (simp_all add: mkAction_def truthy_def)
  have h: "healingAttempts ?s + 1 < maxRetries (exampleConfig 3)" by code_simp
  have r: "currentAction (state_of (step (exampleConfig 3) (detecting ''#login'') (N_heal, ?s, []))) =
      Some (mkAction Click (Some ''#login''))" by code_simp
  show ?thesis
    using heal_redispatches_click_and_fill[of ?s ?a "exampleConfig 3" "detecting ''#login''" "[]"] a t h r
    by (simp add: mkAction_def)
qed

section \<open>Step results and healing entries per step\<close>

lemma executor_failed_attempt:
  assumes "executorType (node_of c) = Some ty" "node_of (step hc ob c) = N_heal"
  shows "\<exists>r. results (state_of (step hc ob c)) = results (state_of c) @ [r] \<and> \<not> sr_success r \<and>
             healingHistory (state_of (step hc ob c)) = healingHistory (state_of c)"
proof -
  obtain n s tr where c: "c = (n, s, tr)" by (cases c)
  from assms(1) c consider "n = N_navigate" | "n = N_click" | "n = N_fill" | "n = N_extract"
    by (cases n) (simp_all add: node_of_def)
  then show ?thesis
  proof cases
    case 1
    then show ?thesis using assms(2) c
      by (auto simp: step_def afterExecutor_def actionEdge_def node_of_def state_of_def
          navigateNode_def appendReducer_def Let_def split: option.splits if_splits)
  next
    case 2
    then show ?thesis using assms(2) c
      by (auto simp: step_def afterExecutor_def actionEdge_def node_of_def state_of_def
          clickNode_def appendReducer_def Let_def split: option.splits if_splits)
  next
    case 3
    then show ?thesis using assms(2) c
      by (auto simp: step_def afterExecutor_def actionEdge_def node_of_def state_of_def
          fillNode_def appendReducer_def Let_def split: option.splits if_splits)
  next
    case 4
    then show ?thesis using assms(2) c
      by (auto simp: step_def afterExecutor_def actionEdge_def node_of_def state_of_def
          extractNode_def appendReducer_def Let_def split: option.splits if_splits)
  qed
qed

lemma executor_successful_attempt:
  assumes "executorType (node_of c) = Some ty" "\<not> guardFails ty (currentAction (state_of c))"
    and "node_of (step hc ob c) = N_success"
  shows "\<exists>r. results (state_of (step hc ob c)) = results (state_of c) @ [r] \<and> sr_success r \<and>
             healingHistory (state_of (step hc ob c)) = healingHistory (state_of c)"
proof -
  obtain n s tr where c: "c = (n, s, tr)" by (cases c)
  from assms(1) c consider "n = N_navigate \<and> ty = Navigate" | "n = N_click \<and> ty = Click"
    | "n = N_fill \<and> ty = Fill" | "n = N_extract \<and> ty = Extract"
    by (cases n) (simp_all add: node_of_def)
  then show ?thesis
  proof cases
    case 1
    then show ?thesis using assms(2,3) c
      by (auto simp: step_def afterExecutor_def actionEdge_def node_of_def state_of_def
          navigateNode_def appendReducer_def Let_def split: option.splits if_splits)
  next
    case 2
    then show ?thesis using assms(2,3) c
      by (auto simp: step_def afterExecutor_def actionEdge_def node_of_def state_of_def
          clickNode_def appendReducer_def Let_def split: option.splits if_splits)
  next
    case 3
    then show ?thesis using assms(2,3) c
      by (auto simp: step_def afterExecutor_def actionEdge_def node_of_def state_of_def
          fillNode_def appendReducer_def Let_def split: option.splits if_splits)
  next
    case 4
    then show ?thesis using assms(2,3) c
      by (auto simp: step_def afterExecutor_def actionEdge_def node_of_def state_of_def
          extractNode_def appendReducer_def Let_def split: option.splits if_splits)
  qed
qed

lemma heal_redispatch_entry:
  assumes "node_of c = N_heal" "executorType (node_of (step hc ob c)) = Some ty"
  shows "results (state_of (step hc ob c)) = results (state_of c) \<and>
         (\<exists>h. healingHistory (state_of (step hc ob c)) = healingHistory (state_of c) @ [h])"
proof -
  obtain n s tr where c: "c = (n, s, tr)" by (cases c)
  have n: "n = N_heal" using assms(1) c by (simp add: node_of_def)
  have e: "executorType (healEdge hc (fst (healNode hc ob s))) = Some ty"
    using assms(2) c n by (simp add: step_heal node_of_def)
  then have nh: "needsHealing (fst (healNode hc ob s))"
    by (auto simp: healEdge_def split: if_splits)
  then show ?thesis using c n
    by (auto simp: step_heal state_of_def healNode_def healThrew_def healRepaired_def
        appendReducer_def Let_def split: if_splits)
qed

lemma healCycles_counts:
  assumes "healCycles hc X cycles c = Some c1" "executorType X = Some ty"
  shows "node_of c1 = X \<and>
         (\<exists>fails hs. results (state_of c1) = results (state_of c) @ fails \<and>
            length fails = length cycles \<and> (\<forall>r\<in>set fails. \<not> sr_success r) \<and>
            healingHistory (state_of c1) = healingHistory (state_of c) @ hs \<and>
            length hs = length cycles)"
  using assms
proof (induction cycles arbitrary: c)
  case Nil
  then show ?case by (simp split: if_splits)
next
  case (Cons p rest)
  obtain failed healed where p: "p = (failed, healed)" by (cases p)
  let ?c1 = "step hc failed c"
  let ?c2 = "step hc healed ?c1"
  from Cons.prems(1) p have path: "node_of c = X" "node_of ?c1 = N_heal" "node_of ?c2 = X"
    and rest: "healCycles hc X rest ?c2 = Some c1"
    by (auto split: if_splits)
  from executor_failed_attempt[of c ty hc failed] path Cons.prems(2)
  obtain r where r: "results (state_of ?c1) = results (state_of c) @ [r]" "\<not> sr_success r"
      "healingHistory (state_of ?c1) = healingHistory (state_of c)"
    by auto
  from heal_redispatch_entry[of ?c1 hc healed ty] path Cons.prems(2)
  obtain h where h: "results (state_of ?c2) = results (state_of ?c1)"
      "healingHistory (state_of ?c2) = healingHistory (state_of ?c1) @ [h]"
    by auto
  from Cons.IH[OF rest Cons.prems(2)]
  obtain fails hs where ih: "node_of c1 = X" "results (state_of c1) = results (state_of ?c2) @ fails"
      "length fails = length rest" "\<forall>r\<in>set fails. \<not> sr_success r"
      "healingHistory (state_of c1) = healingHistory (state_of ?c2) @ hs" "length hs = length rest"
    by auto
  have "results (state_of c1) = results (state_of c) @ (r # fails)"
    using ih(2) h(1) r(1) by simp
  moreover have "healingHistory (state_of c1) = healingHistory (state_of c) @ (h # hs)"
    using ih(5) h(2) r(3) by simp
  moreover have "length (r # fails) = length (p # rest)" "length (h # hs) = length (p # rest)"
    using ih(3,6) by simp_all
  moreover have "\<forall>x\<in>set (r # fails). \<not> sr_success x" using ih(4) r(2) by simp
  ultimately show ?case using ih(1) by blast
qed

lemma executor_guard_noop:
  assumes "executorType (node_of c) = Some ty" "guardFails ty (currentAction (state_of c))"
  shows "step hc ob c = (N_success, (state_of c)\<lparr> needsHealing := False \<rparr>, effects_of c)"
proof -
  obtain n s tr where c: "c = (n, s, tr)" by (cases c)
  from assms(1) c consider "n = N_navigate \<and> ty = Navigate" | "n = N_click \<and> ty = Click"
    | "n = N_fill \<and> ty = Fill" | "n = N_extract \<and> ty = Extract"
    by (cases n) (simp_all add: node_of_def)
  then show ?thesis
  proof cases
    case 1
    then show ?thesis using assms(2) c
      by (simp add: step_def afterExecutor_def actionEdge_def state_of_def effects_of_def navigateNode_def)
  next
    case 2
    then show ?thesis using assms(2) c
      by (simp add: step_def afterExecutor_def actionEdge_def state_of_def effects_of_def clickNode_def)
  next
    case 3
    then show ?thesis using assms(2) c
      by (simp add: step_def afterExecutor_def actionEdge_def state_of_def effects_of_def fillNode_def)
  next
    case 4
    then show ?thesis using assms(2) c
      by (simp add: step_def afterExecutor_def actionEdge_def state_of_def effects_of_def extractNode_def)
  qed
qed

text \<open>
  C4, as the code has it.  A planned click without a target reaches the click executor,
  which returns without signalling \<open>needsHealing\<close> and without a step result: the run
  finalizes with the cursor at \<open>1\<close> and no step result at all.
\<close>

theorem target_less_action_counterexample:
  "node_of (run (exampleConfig 3) ''t'' noTargetRun) = N_click \<and>
   node_of (run (exampleConfig 3) ''t'' (noTargetRun @ [quiet])) = N_success \<and>
   \<not> needsHealing (state_of (run (exampleConfig 3) ''t'' (noTargetRun @ [quiet]))) \<and>
   node_of (run (exampleConfig 3) ''t'' (noTargetRun @ [quiet, quiet, quiet])) = N_finalize \<and>
   currentStep (state_of (run (exampleConfig 3) ''t'' (noTargetRun @ [quiet, quiet, quiet]))) = 1 \<and>
   results (state_of (run (exampleConfig 3) ''t'' (noTargetRun @ [quiet, quiet, quiet]))) = []"
  by code_simp

text \<open>
  C4 amended.  Take a step at the executor node of its action type that goes through
  \<open>m\<close> healing cycles (the executor fails, heal runs, the heal edge re-dispatches to the
  executor) and whose executor then, on an action of its type with a non-empty target,
  goes to the success node.  The step appends exactly \<open>m + 1\<close> step results, \<open>m\<close> failed ones
  followed by a successful one, and exactly \<open>m\<close> healing attempts.  With \<open>m = 0\<close>: an
  executor that succeeds at once on an action with a target appends exactly one step
  result and no healing attempt.  An executor whose action is missing, of another type or
  without target goes to the success node and changes nothing but \<open>needsHealing\<close>: it
  appends no step result.
\<close>

theorem step_results_and_healing_entries:
  "(executorType X = Some ty \<and> healCycles hc X cycles c = Some c1 \<and>
    \<not> guardFails ty (currentAction (state_of c1)) \<and> node_of (step hc ob c1) = N_success \<longrightarrow>
      (\<exists>fails ok hs.
         results (state_of (step hc ob c1)) = results (state_of c) @ fails @ [ok] \<and>
         length fails = length cycles \<and> (\<forall>r\<in>set fails. \<not> sr_success r) \<and> sr_success ok \<and>
         healingHistory (state_of (step hc ob c1)) = healingHistory (state_of c) @ hs \<and>
         length hs = length cycles)) \<and>
   (executorType (node_of c) = Some ty \<and> guardFails ty (currentAction (state_of c)) \<longrightarrow>
      step hc ob c = (N_success, (state_of c)\<lparr> needsHealing := False \<rparr>, effects_of c))"
proof (intro conjI impI)
  assume a: "executorType X = Some ty \<and> healCycles hc X cycles c = Some c1 \<and>
   \<not> guardFails ty (currentAction (state_of c1)) \<and> node_of (step hc ob c1) = N_success"
  from healCycles_counts[of hc X cycles c c1 ty] a
  obtain fails hs where cy: "node_of c1 = X" "results (state_of c1) = results (state_of c) @ fails"
      "length fails = length cycles" "\<forall>r\<in>set fails. \<not> sr_success r"
      "healingHistory (state_of c1) = healingHistory (state_of c) @ hs" "length hs = length cycles"
    by auto
  from executor_successful_attempt[of c1 ty hc ob] a cy(1)
  obtain ok where ok: "results (state_of (step hc ob c1)) = results (state_of c1) @ [ok]" "sr_success ok"
      "healingHistory (state_of (step hc ob c1)) = healingHistory (state_of c1)"
    by auto
  have "results (state_of (step hc ob c1)) = results (state_of c) @ fails @ [ok]"
    using ok(1) cy(2) by simp
  moreover have "healingHistory (state_of (step hc ob c1)) = healingHistory (state_of c) @ hs"
    using ok(3) cy(5) by simp
  ultimately show "\<exists>fails ok hs.
        results (state_of (step hc ob c1)) = results (state_of c) @ fails @ [ok] \<and>
        length fails = length cycles \<and> (\<forall>r\<in>set fails. \<not> sr_success r) \<and> sr_success ok \<and>
        healingHistory (state_of (step hc ob c1)) = healingHistory (state_of c) @ hs \<and>
        length hs = length cycles"
    using cy(3,4,6) ok(2) by blast
next
  assume "executorType (node_of c) = Some ty \<and> guardFails ty (currentAction (state_of c))"
  then show "step hc ob c = (N_success, (state_of c)\<lparr> needsHealing := False \<rparr>, effects_of c)"
    using executor_guard_noop[of c ty hc ob] by simp
qed

theorem step_results_and_healing_entries_witness:
  "executorType N_click = Some Click \<and>
   healCycles (exampleConfig 3) N_click [(failing ''not found'', detecting ''#login'')]
      (run (exampleConfig 3) ''t'' [planning [mkAction Click (Some ''Login'')], quiet]) =
     Some (run (exampleConfig 3) ''t'' (clickRun @ [detecting ''#login''])) \<and>
   \<not> guardFails Click (currentAction (state_of (run (exampleConfig 3) ''t'' (clickRun @ [detecting ''#login''])))) \<and>
   node_of (step (exampleConfig 3) quiet (run (exampleConfig 3) ''t'' (clickRun @ [detecting ''#login'']))) = N_success \<and>
   length (results (state_of (step (exampleConfig 3) quiet
      (run (exampleConfig 3) ''t'' (clickRun @ [detecting ''#login'']))))) = 2 \<and>
   length (healingHistory (state_of (step (exampleConfig 3) quiet
      (run (exampleConfig 3) ''t'' (clickRun @ [detecting ''#login'']))))) = 1 \<and>
   executorType (node_of (run (exampleConfig 3) ''t'' noTargetRun)) = Some Click \<and>
   guardFails Click (currentAction (state_of (run (exampleConfig 3) ''t'' noTargetRun))) \<and>
   node_of (step (exampleConfig 3) quiet (run (exampleConfig 3) ''t'' noTargetRun)) = N_success \<and>
   results (state_of (step (exampleConfig 3) quiet (run (exampleConfig 3) ''t'' noTargetRun))) = []"
proof -
  let ?c = "run (exampleConfig 3) ''t'' [planning [mkAction Click (Some ''Login'')], quiet]"
  let ?c1 = "run (exampleConfig 3) ''t'' (clickRun @ [detecting ''#login''])"
  let ?d = "run (exampleConfig 3) ''t'' noTargetRun"
  have x: "executorType N_click = Some Click" by simp
  have cy: "healCycles (exampleConfig 3) N_click [(failing ''not found'', detecting ''#login'')] ?c = Some ?c1"
    by code_simp
  have g: "\<not> guardFails Click (currentAction (state_of ?c1))" by code_simp
  have n: "node_of (step (exampleConfig 3) quiet ?c1) = N_success" by code_simp
  have r0: "results (state_of ?c) = []" "healingHistory (state_of ?c) = []" by code_simp+
  have d: "executorType (node_of ?d) = Some Click" "guardFails Click (currentAction (state_of ?d))"
    "results (state_of ?d) = []"
    by code_simp+
  from step_results_and_healing_entries[of N_click Click "exampleConfig 3"
      "[(failing ''not found'', detecting ''#login'')]" ?c ?c1 quiet, THEN conjunct1] x cy g n
  obtain fails ok hs where
    "results (state_of (step (exampleConfig 3) quiet ?c1)) = results (state_of ?c) @ fails @ [ok]"
    "length fails = 1"
    "healingHistory (state_of (step (exampleConfig 3) quiet ?c1)) = healingHistory (state_of ?c) @ hs"
    "length hs = 1"
    by auto
  then have l: "length (results (state_of (step (exampleConfig 3) quiet ?c1))) = 2"
    "length (healingHistory (state_of (step (exampleConfig 3) quiet ?c1))) = 1"
    using r0 by simp_all
  have "step (exampleConfig 3) quiet ?d = (N_success, (state_of ?d)\<lparr> needsHealing := False \<rparr>, effects_of ?d)"
    using step_results_and_healing_entries[where c = ?d and ty = Click and hc = "exampleConfig 3"
        and ob = quiet, THEN conjunct2] d(1,2)
    by blast
  then have e: "node_of (step (exampleConfig 3) quiet ?d) = N_success"
    "results (state_of (step (exampleConfig 3) quiet ?d)) = []"
    using d(3) by (simp_all add: node_of_def state_of_def)
  show ?thesis using x cy g n l d e by simp
qed

end
